theory Spec2Isabelle
  imports Complex_Main "HOL-Library.Sublist"
begin

section \<open>Common conventions\<close>

text \<open>
  The development embeds the numerical core of \<^verbatim>\<open>scripts/cosmic_on_air.py\<close>.

  \<^item> A \<^verbatim>\<open>datetime\<close> is an \<open>int\<close>: whole seconds on an absolute time line.  Every device
    parser of the repository builds its timestamps with second resolution, so nothing is lost.
  \<^item> A \<^verbatim>\<open>float64\<close> is a \<open>rat\<close>: the arithmetic is exact.  Where NumPy would yield
    \<^verbatim>\<open>nan\<close> or \<^verbatim>\<open>inf\<close> the model says so explicitly.
  \<^item> A NumPy \<^verbatim>\<open>int64\<close> is an \<open>int\<close>.  Timestamps, counts and their sums stay far from
    the bounds; the squares of the counts that the scaling factor sums do not, and there
    the wrap-around is written out (\<open>int64\<close>).
  \<^item> Every exception of the source is a value of \<open>py_error\<close>, and a function that may raise
    returns \<open>py_error + 'a\<close>.
\<close>

datatype py_error =
    IndexError
  | UnboundLocalError
  | ValueError    \<comment> \<open>NumPy: operands could not be broadcast together; a text that does not parse\<close>
  | AttributeError    \<comment> \<open>a method of \<^verbatim>\<open>None\<close>\<close>
  | TypeError    \<comment> \<open>\<^verbatim>\<open>None\<close> is not subscriptable\<close>
  | TooCorrupt    \<comment> \<open>\<^verbatim>\<open>Exception("Unable to repair without specific dt; time too corrupt.")\<close>\<close>

text \<open>Storing a float into an \<^verbatim>\<open>int64\<close> array truncates towards zero.\<close>

definition trunc_int :: "rat \<Rightarrow> int" where
  "trunc_int x = (if 0 \<le> x then \<lfloor>x\<rfloor> else \<lceil>x\<rceil>)"

section \<open>TimestampRepair: \<^verbatim>\<open>fix_times\<close>\<close>

text \<open>\<^verbatim>\<open>times[1:] - times[:-1]\<close>\<close>

definition np_diff :: "int list \<Rightarrow> int list" where
  "np_diff ts = map2 (\<lambda>a b. b - a) (butlast ts) (tl ts)"

text \<open>The nested helper \<^verbatim>\<open>valid(dt)\<close>; it is applied to floats.\<close>

definition valid :: "int \<Rightarrow> rat \<Rightarrow> bool" where
  "valid max_dt d = (if d \<le> 0 then False else if d > of_int max_dt then False else True)"

text \<open>\<^verbatim>\<open>np.median\<close> of a non-empty integer array.\<close>

definition np_median :: "int list \<Rightarrow> rat" where
  "np_median xs =
     (let s = sort xs; n = length s
      in if n mod 2 = 1 then of_int (s ! (n div 2))
         else (of_int (s ! (n div 2 - 1)) + of_int (s ! (n div 2))) / 2)"

text \<open>
  \<^verbatim>\<open>increment_binary(array, i)\<close>.  The index \<^verbatim>\<open>array[-i]\<close> is position \<open>0\<close> for
  \<open>i = 0\<close> and position \<open>len - i\<close> otherwise.
\<close>

definition neg_index :: "'a list \<Rightarrow> nat \<Rightarrow> nat" where
  "neg_index array i = (if i = 0 then 0 else length array - i)"

function increment_binary :: "bool list \<Rightarrow> nat \<Rightarrow> bool list" where
  "increment_binary array i =
     (if array ! neg_index array i = False then array[neg_index array i := True]
      else (let array' = array[neg_index array i := False]
            in if i + 1 < length array then increment_binary array' (i + 1) else array'))"
  by pat_completeness auto
termination
  by (relation "measure (\<lambda>(array, i). length array - i)") auto

text \<open>The inner accumulation \<^verbatim>\<open>for k in range(len(errors)): if arr[k]: error += errors[k]\<close>.\<close>

definition selected_error :: "rat list \<Rightarrow> bool list \<Rightarrow> rat" where
  "selected_error errors arr = sum_list (map fst (filter snd (zip errors arr)))"

text \<open>\<^verbatim>\<open>for k in range(len(errors)-1, -1, -1): if arr[k]: del errors[k]\<close>\<close>

definition delete_selected :: "rat list \<Rightarrow> bool list \<Rightarrow> rat list" where
  "delete_selected errors arr = map fst (filter (\<lambda>p. \<not> snd p) (zip errors arr))"

text \<open>
  The search \<^verbatim>\<open>for j in range(2**len(errors) - 1)\<close>: the first argument counts the
  iterations that are left.  The result is the selection that was accepted, if any.
\<close>

fun find_combination :: "nat \<Rightarrow> int \<Rightarrow> rat list \<Rightarrow> int \<Rightarrow> bool list \<Rightarrow> bool list option" where
  "find_combination 0 max_dt errors d arr = None"
| "find_combination (Suc j) max_dt errors d arr =
     (if length (filter id arr) \<le> 10 \<and> valid max_dt (of_int d + selected_error errors arr)
      then Some arr
      else find_combination j max_dt errors d (increment_binary arr 0))"

text \<open>
  The main loop \<^verbatim>\<open>for i in range(dt.size)\<close>, over the remaining indices.  The state is the
  array \<open>dt\<close>, updated in place, and the list \<open>errors\<close>; \<open>valid_dt\<close> is computed once before
  the loop and never updated.
\<close>

fun repair_loop ::
  "rat \<Rightarrow> int \<Rightarrow> bool list \<Rightarrow> nat list \<Rightarrow> int list \<Rightarrow> rat list \<Rightarrow> py_error + int list" where
  "repair_loop delta max_dt valid_dt [] dt errors = Inr dt"
| "repair_loop delta max_dt valid_dt (i # rest) dt errors =
     (if dt ! i = 0 then
        (if i > 1 \<and> \<not> valid_dt ! (i - 1) then
           (if errors = [] then Inl IndexError
            else repair_loop delta max_dt valid_dt rest (dt[i := trunc_int delta])
                   (butlast errors @ [last errors - delta]))
         else repair_loop delta max_dt valid_dt rest (dt[i := trunc_int delta])
                (errors @ [- delta]))
      else if \<not> valid_dt ! i then
        (case (if errors \<noteq> []
               then find_combination (2 ^ length errors - 1) max_dt errors (dt ! i)
                      ((replicate (length errors) False)[0 := True])
               else None) of
           Some arr \<Rightarrow>
             repair_loop delta max_dt valid_dt rest
               (dt[i := trunc_int (of_int (dt ! i) + selected_error errors arr)])
               (delete_selected errors arr)
         | None \<Rightarrow>
             repair_loop delta max_dt valid_dt rest (dt[i := trunc_int delta])
               (errors @ [of_int (dt ! i) - delta]))
      else repair_loop delta max_dt valid_dt rest dt errors)"

text \<open>\<^verbatim>\<open>np.concatenate([[0], np.cumsum(dt)])\<close>\<close>

fun np_cumsum :: "int \<Rightarrow> int list \<Rightarrow> int list" where
  "np_cumsum acc [] = []"
| "np_cumsum acc (x # xs) = (acc + x) # np_cumsum (acc + x) xs"

text \<open>
  What \<^verbatim>\<open>fix_times\<close> returns: the very object it was given (\<^verbatim>\<open>return data_time\<close>, which
  the caller detects with \<^verbatim>\<open>is\<close>), or a freshly built array.
\<close>

datatype fix_result = Same_Object | New_Array "int list"

definition returned_times :: "int list \<Rightarrow> fix_result \<Rightarrow> int list" where
  "returned_times data_time r = (case r of Same_Object \<Rightarrow> data_time | New_Array ts \<Rightarrow> ts)"

definition fix_times :: "int list \<Rightarrow> rat \<Rightarrow> int \<Rightarrow> py_error + fix_result" where
  "fix_times data_time delta max_dt =
     (let times = map (\<lambda>d. d - data_time ! 0) data_time;
          dt = np_diff times;
          valid_dt = map (\<lambda>d. 0 < d \<and> d \<le> max_dt) dt
      in if list_all id valid_dt then Inr Same_Object
         else if delta \<le> 0 \<and> \<not> list_ex id valid_dt then Inl TooCorrupt
         else
           (let delta' = (if delta \<le> 0 then np_median (map fst (filter snd (zip dt valid_dt)))
                          else delta)
            in case repair_loop delta' max_dt valid_dt [0 ..< length dt] dt [] of
                 Inl e \<Rightarrow> Inl e
               | Inr dt' \<Rightarrow>
                   Inr (New_Array (map (\<lambda>t. data_time ! 0 + t) (0 # np_cumsum 0 dt')))))"

text \<open>The defaults of the signature \<^verbatim>\<open>fix_times(data_time, delta=-1, max_dt=1800)\<close>.\<close>

definition fix_times_default :: "int list \<Rightarrow> py_error + fix_result" where
  "fix_times_default data_time = fix_times data_time (-1) 1800"

section \<open>SpatialInterpolator: \<^verbatim>\<open>unravel_lon\<close> and \<^verbatim>\<open>ravel_lon\<close>\<close>

text \<open>
  The two inner loops of \<^verbatim>\<open>unravel_lon\<close>:
  \<^verbatim>\<open>while u[i] - u[i-1] > 180: u[i] -= 360\<close> and
  \<^verbatim>\<open>while u[i] - u[i-1] < -180: u[i] += 360\<close>.  Over the rationals both terminate.
\<close>

function wrap_down :: "rat \<Rightarrow> rat \<Rightarrow> rat" where
  "wrap_down prev x = (if x - prev > 180 then wrap_down prev (x - 360) else x)"
  by pat_completeness auto
termination
proof (relation "measure (\<lambda>(prev, x). nat \<lfloor>x - prev\<rfloor>)", goal_cases)
  case 1
  show ?case by simp
next
  case (2 prev x)
  have "x - 360 - prev = (x - prev) - 360" by simp
  then have "\<lfloor>x - 360 - prev\<rfloor> = \<lfloor>x - prev\<rfloor> - 360"
    by (simp only: floor_diff_numeral)
  moreover have "180 \<le> \<lfloor>x - prev\<rfloor>"
    using 2 by (simp add: le_floor_iff)
  ultimately show ?case by simp
qed

function wrap_up :: "rat \<Rightarrow> rat \<Rightarrow> rat" where
  "wrap_up prev x = (if x - prev < - 180 then wrap_up prev (x + 360) else x)"
  by pat_completeness auto
termination
proof (relation "measure (\<lambda>(prev, x). nat \<lfloor>prev - x\<rfloor>)", goal_cases)
  case 1
  show ?case by simp
next
  case (2 prev x)
  have "prev - (x + 360) = (prev - x) - 360" by simp
  then have "\<lfloor>prev - (x + 360)\<rfloor> = \<lfloor>prev - x\<rfloor> - 360"
    by (simp only: floor_diff_numeral)
  moreover have "180 \<le> \<lfloor>prev - x\<rfloor>"
    using 2 by (simp add: le_floor_iff)
  ultimately show ?case by simp
qed

text \<open>The loop \<^verbatim>\<open>for i in range(1, unravelled_lon.size)\<close> on the copy of the input.\<close>

fun unravel_loop :: "nat list \<Rightarrow> rat list \<Rightarrow> rat list" where
  "unravel_loop [] u = u"
| "unravel_loop (i # rest) u =
     unravel_loop rest (u[i := wrap_up (u ! (i - 1)) (wrap_down (u ! (i - 1)) (u ! i))])"

definition unravel_lon :: "rat list \<Rightarrow> rat list" where
  "unravel_lon lon = unravel_loop [1 ..< length lon] lon"

text \<open>The float remainder \<^verbatim>\<open>%\<close> of Python and NumPy: the result has the sign of the divisor.\<close>

definition py_mod :: "rat \<Rightarrow> rat \<Rightarrow> rat" where
  "py_mod a b = a - b * of_int \<lfloor>a / b\<rfloor>"

text \<open>\<^verbatim>\<open>(lon + 180) % 360 - 180\<close>, elementwise.\<close>

definition ravel_lon :: "rat list \<Rightarrow> rat list" where
  "ravel_lon lon = map (\<lambda>x. py_mod (x + 180) 360 - 180) lon"

text \<open>Two longitudes name the same direction when they differ by a whole number of turns.\<close>

definition cong360 :: "rat \<Rightarrow> rat \<Rightarrow> bool" where
  "cong360 a b = (\<exists>k::int. a = b + 360 * of_int k)"

section \<open>MergePipeline: the scaling factor, and the slope of ReferenceAligner\<close>

text \<open>\<^verbatim>\<open>np.sum(a * b)\<close> for two arrays of the same length.\<close>

definition np_dot :: "rat list \<Rightarrow> rat list \<Rightarrow> rat" where
  "np_dot a b = sum_list (map2 (*) a b)"

text \<open>
  Float division of NumPy scalars.  A zero divisor raises nothing: the result is
  \<^verbatim>\<open>nan\<close> or an infinity, here \<open>None\<close>.
\<close>

definition np_true_divide :: "rat \<Rightarrow> rat \<Rightarrow> rat option" where
  "np_true_divide a b = (if b = 0 then None else Some (a / b))"

text \<open>
  \<^verbatim>\<open>align_time\<close>:
  \<^verbatim>\<open>beta_hat = np.sum(measurement * reference_adjusted) / np.sum(reference_adjusted**2)\<close>
\<close>

definition beta_hat :: "rat list \<Rightarrow> rat list \<Rightarrow> rat option" where
  "beta_hat measurement reference_adjusted =
     np_true_divide (np_dot measurement reference_adjusted)
       (sum_list (map (\<lambda>r. r ^ 2) reference_adjusted))"

text \<open>
  Arithmetic on \<^verbatim>\<open>int64\<close> arrays wraps around: the result is reduced to the range from
  \<open>-2\<^sup>6\<^sup>3\<close> to \<open>2\<^sup>6\<^sup>3 - 1\<close>.  \<^verbatim>\<open>np.sum\<close> of such an array wraps after every addition,
  which gives the same result in any order of summation.
\<close>

definition int64 :: "int \<Rightarrow> int" where
  "int64 x = (x + 2 ^ 63) mod 2 ^ 64 - 2 ^ 63"

definition np_sum_int64 :: "int list \<Rightarrow> int" where
  "np_sum_int64 xs = foldl (\<lambda>acc x. int64 (acc + x)) 0 xs"

text \<open>
  The elementwise product \<^verbatim>\<open>a * b\<close> of two one-dimensional arrays: an array of length
  one is broadcast, and other lengths that differ raise.
\<close>

definition np_mul :: "rat list \<Rightarrow> rat list \<Rightarrow> py_error + rat list" where
  "np_mul a b =
     (if length a = length b then Inr (map2 (*) a b)
      else if length a = 1 then Inr (map (\<lambda>y. a ! 0 * y) b)
      else if length b = 1 then Inr (map (\<lambda>x. x * b ! 0) a)
      else Inl ValueError)"

text \<open>
  \<^verbatim>\<open>read_raw_log\<close>, line 234:
  \<^verbatim>\<open>np.sum(data['cnt_1mn'] * data['total-neutron']) / np.sum(data['cnt_1mn']**2)\<close>.
  The counts are an \<^verbatim>\<open>int64\<close> array and the dose is a \<^verbatim>\<open>float64\<close> array: the product is
  computed in floats, the squares and their sum in \<^verbatim>\<open>int64\<close>.  The result is optional as
  that of \<open>np_true_divide\<close>.
\<close>

definition scaling_factor :: "int list \<Rightarrow> rat list \<Rightarrow> py_error + rat option" where
  "scaling_factor cnt_1mn total_neutron =
     (case np_mul (map of_int cnt_1mn) total_neutron of
        Inl e \<Rightarrow> Inl e
      | Inr products \<Rightarrow>
          Inr (np_true_divide (sum_list products)
                 (of_int (np_sum_int64 (map (\<lambda>c. int64 (c ^ 2)) cnt_1mn)))))"

text \<open>
  The slice \<^verbatim>\<open>xs[lo:hi]\<close> for indices that are not negative; slicing never raises.
\<close>

definition py_slice :: "'a list \<Rightarrow> nat \<Rightarrow> nat \<Rightarrow> 'a list" where
  "py_slice xs lo hi = take (hi - lo) (drop lo xs)"

text \<open>
  The part of the merged record of \<^verbatim>\<open>read_raw_log\<close> that the scaling factor depends on:
  the counts and the times of the finalized window, the interpolated reference dose (the
  key \<^verbatim>\<open>'total-neutron'\<close>, present only with reference data) and the scaling factor, which
  is \<^verbatim>\<open>0.0\<close> from the initial dictionary unless line 234 assigns it.
\<close>

record merged_record =
  m_cnt_1mn :: "int list"
  m_time :: "int list"
  m_total_neutron :: "rat list option"
  m_scaling_factor :: "rat option"

text \<open>
  \<^verbatim>\<open>read_raw_log\<close> from \<^verbatim>\<open>idx_range = slice(device_takeoff_idx, device_landing_idx+1)\<close>
  to its end (lines 184 to 239), for those fields.  \<open>cari_data\<close> is \<open>None\<close> when the
  reference software is absent (\<^verbatim>\<open>cari_data = None\<close>), and otherwise holds the array
  \<^verbatim>\<open>cari_data['total-neutron']\<close>, which is sampled at the times of the flight data.
  \<open>np_interp xp fp x\<close> stands for one value of \<^verbatim>\<open>np.interp(x, xp, fp)\<close>; NumPy raises
  when \<open>xp\<close> is empty (already at line 219) or \<open>xp\<close> and \<open>fp\<close> differ in length.  Line 197
  reads \<^verbatim>\<open>device_data['time'][device_takeoff_idx]\<close> and line 200 reads
  \<^verbatim>\<open>data['time'][0]\<close> of the slice; both raise out of range.  The positions (lines 202
  to 227) and \<^verbatim>\<open>data['cari_total']\<close> are other fields of the record and are left out.
\<close>

definition read_raw_log_merge ::
  "(rat list \<Rightarrow> rat list \<Rightarrow> rat \<Rightarrow> rat) \<Rightarrow> int list \<Rightarrow> int list \<Rightarrow> nat \<Rightarrow> nat
     \<Rightarrow> int list \<Rightarrow> int \<Rightarrow> rat list option \<Rightarrow> py_error + merged_record" where
  "read_raw_log_merge np_interp device_cnt_1mn device_time device_takeoff_idx device_landing_idx
       flight_time takeoff cari_data =
     (let cnt_1mn = py_slice device_cnt_1mn device_takeoff_idx (device_landing_idx + 1);
          time_slice = py_slice device_time device_takeoff_idx (device_landing_idx + 1)
      in if \<not> device_takeoff_idx < length device_time then Inl IndexError
         else if time_slice = [] then Inl IndexError
         else
           (let data_time = map (\<lambda>t. t - time_slice ! 0 + takeoff) time_slice;
                time = map (\<lambda>d. of_int (d - takeoff)) data_time;
                time_flight = map (\<lambda>d. of_int (d - takeoff)) flight_time
            in if time_flight = [] then Inl ValueError
               else case cari_data of
                 None \<Rightarrow>
                   Inr \<lparr>m_cnt_1mn = cnt_1mn, m_time = data_time, m_total_neutron = None,
                        m_scaling_factor = Some 0\<rparr>
               | Some reference \<Rightarrow>
                   if length time_flight \<noteq> length reference then Inl ValueError
                   else
                     (let total_neutron = map (np_interp time_flight reference) time
                      in case scaling_factor cnt_1mn total_neutron of
                           Inl e \<Rightarrow> Inl e
                         | Inr factor \<Rightarrow>
                             Inr \<lparr>m_cnt_1mn = cnt_1mn, m_time = data_time,
                                  m_total_neutron = Some total_neutron,
                                  m_scaling_factor = factor\<rparr>)))"

section \<open>WindowEstimator: \<^verbatim>\<open>estimate_takeoff\<close>\<close>

text \<open>
  The two \<^verbatim>\<open>np.where\<close> calls that cap a difference of consecutive counts, applied one
  after the other: \<^verbatim>\<open>delta > max_diff\<close> first, then \<^verbatim>\<open>delta < -max_diff\<close>.
\<close>

definition clip_delta :: "int \<Rightarrow> int \<Rightarrow> int" where
  "clip_delta max_diff d =
     (let d1 = (if d > max_diff then max_diff else d)
      in if d1 < - max_diff then - max_diff else d1)"

text \<open>
  \<^verbatim>\<open>for i in range(1, size): cnt_5sc[i] = cnt_5sc[i-1] + delta[i]\<close>, reset to \<open>0\<close> when
  negative; the first argument is \<^verbatim>\<open>cnt_5sc[i-1]\<close>.
\<close>

fun capped_counts :: "int \<Rightarrow> int list \<Rightarrow> int list" where
  "capped_counts prev [] = []"
| "capped_counts prev (d # ds) =
     (let c = (if prev + d < 0 then 0 else prev + d) in c # capped_counts c ds)"

text \<open>
  The variables of the \<^verbatim>\<open>while\<close> loop.  \<^verbatim>\<open>dt\<close> is assigned inside the inner
  \<^verbatim>\<open>for\<close> loop only, so it keeps its last value when that loop has nothing to run over,
  and it is unbound before the first assignment.  The source's \<^verbatim>\<open>size\<close> is written
  \<open>sz\<close> throughout.
\<close>

record est_state =
  window_start :: nat
  window_stop :: nat
  dt :: "int option"
  max_sum :: int
  takeoff_idx :: nat
  landing_idx :: nat

text \<open>
  The inner loop \<^verbatim>\<open>for i in range(window_stop+1, size)\<close>: the window stop moves on while
  \<^verbatim>\<open>data['time'][i] - data['time'][window_start] < flight_duration\<close>, and the loop breaks
  at the first sample that is too late.
\<close>

fun next_stop :: "int list \<Rightarrow> int \<Rightarrow> nat \<Rightarrow> nat list \<Rightarrow> nat \<Rightarrow> int option
                   \<Rightarrow> py_error + nat \<times> int option" where
  "next_stop time flight_duration start [] stop d = Inr (stop, d)"
| "next_stop time flight_duration start (i # rest) stop d =
     (if i < length time \<and> start < length time then
        (if time ! i - time ! start < flight_duration
         then next_stop time flight_duration start rest i (Some (time ! i - time ! start))
         else Inr (stop, Some (time ! i - time ! start)))
      else Inl IndexError)"

text \<open>
  One run of the body of \<^verbatim>\<open>while window_stop != size - 1\<close>: the inner loop, the
  \<^verbatim>\<open>if dt <= zero_dt\<close> branch that ends with \<^verbatim>\<open>continue\<close>, and the comparison
  \<^verbatim>\<open>if this_sum >= max_sum\<close>.
\<close>

definition est_step :: "int list \<Rightarrow> int list \<Rightarrow> int \<Rightarrow> nat \<Rightarrow> est_state \<Rightarrow> py_error + est_state" where
  "est_step cumsum time flight_duration sz st =
     (case next_stop time flight_duration (window_start st)
             [window_stop st + 1 ..< sz] (window_stop st) (dt st) of
        Inl e \<Rightarrow> Inl e
      | Inr (stop, None) \<Rightarrow> Inl UnboundLocalError
      | Inr (stop, Some d) \<Rightarrow>
          (if d \<le> 0 then
             Inr (st\<lparr>window_start := window_start st + 1,
                     window_stop := window_start st + 1 + 1, dt := Some d\<rparr>)
           else if stop < length cumsum \<and> window_start st < length cumsum then
             (let this_sum = cumsum ! stop - cumsum ! window_start st
              in if this_sum \<ge> max_sum st
                 then Inr (st\<lparr>window_start := window_start st + 1, window_stop := stop,
                              dt := Some d, max_sum := this_sum,
                              takeoff_idx := window_start st, landing_idx := stop\<rparr>)
                 else Inr (st\<lparr>window_start := window_start st + 1, window_stop := stop,
                              dt := Some d\<rparr>))
           else Inl IndexError))"

text \<open>
  The \<^verbatim>\<open>while\<close> loop.  Nothing bounds the number of its iterations, so the result is
  optional: \<open>None\<close> says that the loop never ends.
\<close>

partial_function (option) estimate_loop ::
  "int list \<Rightarrow> int list \<Rightarrow> int \<Rightarrow> nat \<Rightarrow> est_state \<Rightarrow> (py_error + nat \<times> nat) option" where
  "estimate_loop cumsum time flight_duration sz st =
     (if window_stop st = sz - 1 then Some (Inr (takeoff_idx st, landing_idx st))
      else case est_step cumsum time flight_duration sz st of
             Inl e \<Rightarrow> Some (Inl e)
           | Inr st' \<Rightarrow> estimate_loop cumsum time flight_duration sz st')"

text \<open>
  \<^verbatim>\<open>cumsum = np.cumsum(cnt_5sc)\<close> of the capped counts, and the state before the loop.
\<close>

definition est_cumsum :: "int list \<Rightarrow> int \<Rightarrow> int list" where
  "est_cumsum cnt_5sc max_diff =
     np_cumsum 0 (cnt_5sc ! 0 # capped_counts (cnt_5sc ! 0)
                                 (map (clip_delta max_diff) (np_diff cnt_5sc)))"

definition est_init :: "nat \<Rightarrow> est_state" where
  "est_init sz = \<lparr>window_start = 0, window_stop = 0, dt = None, max_sum = 0,
                  takeoff_idx = 0, landing_idx = sz - 1\<rparr>"

text \<open>
  \<^verbatim>\<open>estimate_takeoff(data, flight_duration, max_diff=100)\<close>, with
  \<^verbatim>\<open>data['cnt_5sc']\<close> and \<^verbatim>\<open>data['time']\<close> as two arguments.  On empty data
  \<^verbatim>\<open>data['cnt_5sc'][0]\<close> raises.
\<close>

definition estimate_takeoff ::
  "int list \<Rightarrow> int list \<Rightarrow> int \<Rightarrow> int \<Rightarrow> (py_error + nat \<times> nat) option" where
  "estimate_takeoff cnt_5sc time flight_duration max_diff =
     (let sz = length cnt_5sc
      in if sz = 0 then Some (Inl IndexError)
         else estimate_loop (est_cumsum cnt_5sc max_diff) time flight_duration sz (est_init sz))"

declare estimate_loop.simps [code]

section \<open>ReferenceAligner: \<^verbatim>\<open>align_time\<close>\<close>

text \<open>
  \<^verbatim>\<open>measurement.mean()\<close>
\<close>

definition np_mean :: "rat list \<Rightarrow> rat" where
  "np_mean xs = sum_list xs / of_nat (length xs)"

text \<open>
  The regression of one window, from \<^verbatim>\<open>beta_hat = ...\<close> to \<^verbatim>\<open>R2 = 1 - ESS/TSS\<close>.
  \<open>None\<close> stands for the two \<^verbatim>\<open>continue\<close> statements (\<^verbatim>\<open>beta_hat < 0\<close> and
  \<^verbatim>\<open>TSS == 0\<close>) and for a \<^verbatim>\<open>beta_hat\<close> that is \<^verbatim>\<open>nan\<close>: then \<^verbatim>\<open>R2\<close> is
  \<^verbatim>\<open>nan\<close> and \<^verbatim>\<open>R2 > max_R2\<close> is false, so the window changes nothing either.
\<close>

definition fit_R2 :: "rat list \<Rightarrow> rat list \<Rightarrow> rat option" where
  "fit_R2 measurement reference_adjusted =
     (case beta_hat measurement reference_adjusted of
        None \<Rightarrow> None
      | Some b \<Rightarrow>
          if b < 0 then None
          else
            (let e = map2 (\<lambda>m r. m - b * r) measurement reference_adjusted;
                 ESS = sum_list (map (\<lambda>x. x ^ 2) e);
                 TSS = sum_list (map (\<lambda>m. (m - np_mean measurement) ^ 2) measurement)
             in if TSS = 0 then None else Some (1 - ESS / TSS)))"

text \<open>
  The variables of the \<^verbatim>\<open>while\<close> loop; the prefix keeps the field names apart from those
  of \<open>est_state\<close>.
\<close>

record align_state =
  a_window_start :: nat
  a_window_end :: nat
  max_R2 :: rat
  a_takeoff_idx :: nat
  a_landing_idx :: nat

text \<open>
  The inner loop \<^verbatim>\<open>for i in range(window_end+1, size)\<close> with its \<^verbatim>\<open>else\<close> clause:
  \<^verbatim>\<open>window_end = i-1\<close> at the first sample with \<^verbatim>\<open>dt > flight_duration\<close>, and
  \<^verbatim>\<open>window_end = size-1\<close> when the loop is not left by \<^verbatim>\<open>break\<close>.
\<close>

fun next_end :: "int list \<Rightarrow> int \<Rightarrow> nat \<Rightarrow> nat \<Rightarrow> nat list \<Rightarrow> py_error + nat" where
  "next_end time flight_duration start sz [] = Inr (sz - 1)"
| "next_end time flight_duration start sz (i # rest) =
     (if i < length time \<and> start < length time then
        (if time ! i - time ! start > flight_duration then Inr (i - 1)
         else next_end time flight_duration start sz rest)
      else Inl IndexError)"

text \<open>
  \<^verbatim>\<open>measurement = device_data['cnt_1mn'][window_start:window_end+1]\<close> and
  \<^verbatim>\<open>measurement_times = times_from_start[window_start:window_end+1] -
  (device_data['time'][window_start] - device_data['time'][0]).total_seconds()\<close>
\<close>

definition window_measurement :: "int list \<Rightarrow> nat \<Rightarrow> nat \<Rightarrow> rat list" where
  "window_measurement cnt_1mn w_start w_end = map of_int (py_slice cnt_1mn w_start (w_end + 1))"

definition window_times :: "int list \<Rightarrow> nat \<Rightarrow> nat \<Rightarrow> rat list" where
  "window_times time w_start w_end =
     map (\<lambda>t. of_int (t - time ! 0) - of_int (time ! w_start - time ! 0))
       (py_slice time w_start (w_end + 1))"

text \<open>
  One run of the body of \<^verbatim>\<open>while window_end != size - 1\<close>.  The reference curve enters
  through \<open>interp\<close>, which stands for
  \<^verbatim>\<open>lambda ts: np.interp(ts, reference_times, reference)\<close>.  The test
  \<^verbatim>\<open>dt < 0.5 * flight_duration\<close> is \<open>2 * dt < flight_duration\<close>.  The source increments
  \<^verbatim>\<open>window_start\<close> before the regression, so \<^verbatim>\<open>takeoff_idx = window_start\<close> stores the
  start of the window plus one.
\<close>

definition align_step ::
  "(rat list \<Rightarrow> rat list) \<Rightarrow> int list \<Rightarrow> int list \<Rightarrow> int \<Rightarrow> nat \<Rightarrow> align_state
     \<Rightarrow> py_error + align_state" where
  "align_step interp cnt_1mn time flight_duration sz st =
     (case next_end time flight_duration (a_window_start st) sz [a_window_end st + 1 ..< sz] of
        Inl e \<Rightarrow> Inl e
      | Inr w_end \<Rightarrow>
          if w_end < length time \<and> a_window_start st < length time then
            (if 2 * (time ! w_end - time ! a_window_start st) < flight_duration
                \<or> int w_end - int (a_window_start st) < 5
             then Inr (st\<lparr>a_window_start := a_window_start st + 1,
                          a_window_end := a_window_start st + 1 + 1\<rparr>)
             else
               (let measurement = window_measurement cnt_1mn (a_window_start st) w_end;
                    measurement_times = window_times time (a_window_start st) w_end;
                    reference_adjusted = interp measurement_times
                in if length measurement \<noteq> length reference_adjusted then Inl ValueError
                   else
                     (case fit_R2 measurement reference_adjusted of
                        None \<Rightarrow> Inr (st\<lparr>a_window_start := a_window_start st + 1,
                                          a_window_end := w_end\<rparr>)
                      | Some R2 \<Rightarrow>
                          if R2 > max_R2 st
                          then Inr (st\<lparr>a_window_start := a_window_start st + 1,
                                       a_window_end := w_end, max_R2 := R2,
                                       a_takeoff_idx := a_window_start st + 1,
                                       a_landing_idx := w_end\<rparr>)
                          else Inr (st\<lparr>a_window_start := a_window_start st + 1,
                                       a_window_end := w_end\<rparr>))))
          else Inl IndexError)"

text \<open>
  Every run of the body either raises or moves the window start forward by one, and it
  reads \<^verbatim>\<open>device_data['time'][window_start]\<close>: the loop cannot run for ever.
\<close>

lemma align_step_advances:
  "align_step interp cnt_1mn time flight_duration sz st = Inr st' \<Longrightarrow>
     a_window_start st < length time \<and> a_window_start st' = a_window_start st + 1"
  unfolding align_step_def
  by (auto split: sum.splits if_splits option.splits simp: Let_def)

function align_loop ::
  "(rat list \<Rightarrow> rat list) \<Rightarrow> int list \<Rightarrow> int list \<Rightarrow> int \<Rightarrow> nat \<Rightarrow> align_state
     \<Rightarrow> py_error + nat \<times> nat \<times> rat" where
  "align_loop interp cnt_1mn time flight_duration sz st =
     (if a_window_end st = sz - 1 then Inr (a_takeoff_idx st, a_landing_idx st, max_R2 st)
      else case align_step interp cnt_1mn time flight_duration sz st of
             Inl e \<Rightarrow> Inl e
           | Inr st' \<Rightarrow> align_loop interp cnt_1mn time flight_duration sz st')"
  by pat_completeness auto
termination
proof (relation "measure (\<lambda>(interp, cnt_1mn, time, flight_duration, sz, st).
                   length time - a_window_start st)", goal_cases)
  case 1
  show ?case by simp
next
  case (2 interp cnt_1mn time flight_duration sz st st')
  then have "a_window_start st < length time \<and> a_window_start st' = a_window_start st + 1"
    by (simp add: align_step_advances)
  then show ?case by auto
qed

text \<open>
  \<^verbatim>\<open>align_time(device_data, flight_data, cari_data)\<close>; the result is
  \<^verbatim>\<open>(takeoff_idx, landing_idx, max_R2)\<close>.  On empty data the first evaluation of
  \<^verbatim>\<open>device_data['time'][window_end]\<close> raises.
\<close>

definition align_init :: "nat \<Rightarrow> align_state" where
  "align_init sz = \<lparr>a_window_start = 0, a_window_end = 0, max_R2 = 0,
                    a_takeoff_idx = 0, a_landing_idx = sz - 1\<rparr>"

definition align_time ::
  "(rat list \<Rightarrow> rat list) \<Rightarrow> int list \<Rightarrow> int list \<Rightarrow> int \<Rightarrow> py_error + nat \<times> nat \<times> rat" where
  "align_time interp cnt_1mn time flight_duration =
     (let sz = length time
      in if sz = 0 then Inl IndexError
         else align_loop interp cnt_1mn time flight_duration sz (align_init sz))"

text \<open>
  A reference curve for the scenarios: linear interpolation between sample points with
  increasing abscissae, constant outside of them, as \<^verbatim>\<open>np.interp\<close> computes it there.
\<close>

fun lin_interp1 :: "(rat \<times> rat) list \<Rightarrow> rat \<Rightarrow> rat" where
  "lin_interp1 [] x = 0"
| "lin_interp1 [(x0, y0)] x = y0"
| "lin_interp1 ((x0, y0) # (x1, y1) # rest) x =
     (if x \<le> x0 then y0
      else if x \<le> x1 then y0 + (y1 - y0) / (x1 - x0) * (x - x0)
      else lin_interp1 ((x1, y1) # rest) x)"

definition lin_interp :: "rat list \<Rightarrow> rat list \<Rightarrow> rat list \<Rightarrow> rat list" where
  "lin_interp xp fp xs = map (lin_interp1 (zip xp fp)) xs"

section \<open>The windows a scan examines\<close>

text \<open>
  The window that one run of the body of \<^verbatim>\<open>estimate_takeoff\<close>'s loop compares with the
  best one so far, with its sum: \<^verbatim>\<open>(window_start, window_stop, this_sum)\<close>.  There is none
  when the run raises or takes the \<^verbatim>\<open>continue\<close> branch.
\<close>

definition est_candidate ::
  "int list \<Rightarrow> int list \<Rightarrow> int \<Rightarrow> nat \<Rightarrow> est_state \<Rightarrow> (nat \<times> nat \<times> int) option" where
  "est_candidate cumsum time flight_duration sz st =
     (case next_stop time flight_duration (window_start st)
             [window_stop st + 1 ..< sz] (window_stop st) (dt st) of
        Inr (stop, Some d) \<Rightarrow>
          if 0 < d \<and> stop < length cumsum \<and> window_start st < length cumsum
          then Some (window_start st, stop, cumsum ! stop - cumsum ! window_start st)
          else None
      | _ \<Rightarrow> None)"

text \<open>
  The state after \<open>k\<close> runs of the body, if the loop gets that far: it does not when it is
  left, or raises, earlier.
\<close>

fun est_iter ::
  "int list \<Rightarrow> int list \<Rightarrow> int \<Rightarrow> nat \<Rightarrow> nat \<Rightarrow> est_state \<Rightarrow> est_state option" where
  "est_iter cumsum time flight_duration sz 0 st = Some st"
| "est_iter cumsum time flight_duration sz (Suc k) st =
     (if window_stop st = sz - 1 then None
      else case est_step cumsum time flight_duration sz st of
             Inl e \<Rightarrow> None
           | Inr st' \<Rightarrow> est_iter cumsum time flight_duration sz k st')"

text \<open>
  The window examined in run number \<open>j\<close> (from \<open>0\<close>) of the loop.
\<close>

definition est_window ::
  "int list \<Rightarrow> int list \<Rightarrow> int \<Rightarrow> nat \<Rightarrow> est_state \<Rightarrow> nat \<Rightarrow> (nat \<times> nat \<times> int) option" where
  "est_window cumsum time flight_duration sz st0 j =
     (case est_iter cumsum time flight_duration sz j st0 of
        None \<Rightarrow> None
      | Some sj \<Rightarrow> if window_stop sj = sz - 1 then None
                   else est_candidate cumsum time flight_duration sz sj)"

definition est_examined ::
  "int list \<Rightarrow> int list \<Rightarrow> int \<Rightarrow> int \<Rightarrow> nat \<Rightarrow> (nat \<times> nat \<times> int) option" where
  "est_examined cnt_5sc time flight_duration max_diff j =
     est_window (est_cumsum cnt_5sc max_diff) time flight_duration (length cnt_5sc)
       (est_init (length cnt_5sc)) j"

definition est_returns ::
  "int list \<Rightarrow> int list \<Rightarrow> int \<Rightarrow> nat \<Rightarrow> est_state \<Rightarrow> py_error + nat \<times> nat \<Rightarrow> bool" where
  "est_returns cumsum time flight_duration sz st y =
     (\<forall>r. y = Inr r \<longrightarrow>
       (\<exists>k st'. est_iter cumsum time flight_duration sz k st = Some st'
           \<and> window_stop st' = sz - 1 \<and> r = (takeoff_idx st', landing_idx st')))"

text \<open>
  A state from which the loop of \<^verbatim>\<open>estimate_takeoff\<close> cannot get away: the window stop
  is beyond the last index, so the inner loop has nothing to run over, \<^verbatim>\<open>dt\<close> keeps a
  value that is not positive, and the \<^verbatim>\<open>continue\<close> branch moves the window stop further.
\<close>

definition est_stuck :: "nat \<Rightarrow> est_state \<Rightarrow> bool" where
  "est_stuck sz st =
     (0 < sz \<and> sz \<le> window_stop st \<and> sz \<le> window_start st + 2
      \<and> (case dt st of None \<Rightarrow> False | Some d \<Rightarrow> d \<le> 0))"

text \<open>
  The same notions for \<^verbatim>\<open>align_time\<close>: the window \<^verbatim>\<open>(window_start, window_end)\<close> that
  one run of the body fits, with its \<^verbatim>\<open>R2\<close>.
\<close>

definition align_candidate ::
  "(rat list \<Rightarrow> rat list) \<Rightarrow> int list \<Rightarrow> int list \<Rightarrow> int \<Rightarrow> nat \<Rightarrow> align_state
     \<Rightarrow> (nat \<times> nat \<times> rat) option" where
  "align_candidate interp cnt_1mn time flight_duration sz st =
     (case next_end time flight_duration (a_window_start st) sz [a_window_end st + 1 ..< sz] of
        Inl e \<Rightarrow> None
      | Inr w_end \<Rightarrow>
          if w_end < length time \<and> a_window_start st < length time
             \<and> \<not> (2 * (time ! w_end - time ! a_window_start st) < flight_duration
                    \<or> int w_end - int (a_window_start st) < 5)
             \<and> length (window_measurement cnt_1mn (a_window_start st) w_end)
                 = length (interp (window_times time (a_window_start st) w_end))
          then map_option (\<lambda>R2. (a_window_start st, w_end, R2))
                 (fit_R2 (window_measurement cnt_1mn (a_window_start st) w_end)
                    (interp (window_times time (a_window_start st) w_end)))
          else None)"

fun align_iter ::
  "(rat list \<Rightarrow> rat list) \<Rightarrow> int list \<Rightarrow> int list \<Rightarrow> int \<Rightarrow> nat \<Rightarrow> nat \<Rightarrow> align_state
     \<Rightarrow> align_state option" where
  "align_iter interp cnt_1mn time flight_duration sz 0 st = Some st"
| "align_iter interp cnt_1mn time flight_duration sz (Suc k) st =
     (if a_window_end st = sz - 1 then None
      else case align_step interp cnt_1mn time flight_duration sz st of
             Inl e \<Rightarrow> None
           | Inr st' \<Rightarrow> align_iter interp cnt_1mn time flight_duration sz k st')"

definition align_window ::
  "(rat list \<Rightarrow> rat list) \<Rightarrow> int list \<Rightarrow> int list \<Rightarrow> int \<Rightarrow> nat \<Rightarrow> align_state \<Rightarrow> nat
     \<Rightarrow> (nat \<times> nat \<times> rat) option" where
  "align_window interp cnt_1mn time flight_duration sz st0 j =
     (case align_iter interp cnt_1mn time flight_duration sz j st0 of
        None \<Rightarrow> None
      | Some sj \<Rightarrow> if a_window_end sj = sz - 1 then None
                   else align_candidate interp cnt_1mn time flight_duration sz sj)"

definition align_examined ::
  "(rat list \<Rightarrow> rat list) \<Rightarrow> int list \<Rightarrow> int list \<Rightarrow> int \<Rightarrow> nat \<Rightarrow> (nat \<times> nat \<times> rat) option" where
  "align_examined interp cnt_1mn time flight_duration j =
     align_window interp cnt_1mn time flight_duration (length time) (align_init (length time)) j"

text \<open>
  The window \<^verbatim>\<open>(window_start, window_end)\<close> that run number \<open>j\<close> of the loop of
  \<^verbatim>\<open>align_time\<close> hands to the regression, whatever the regression makes of it: the run
  must exist and must not take the branch of the test on the span and the number of samples.
\<close>

definition align_span :: "int list \<Rightarrow> int \<Rightarrow> nat \<Rightarrow> align_state \<Rightarrow> (nat \<times> nat) option" where
  "align_span time flight_duration sz st =
     (case next_end time flight_duration (a_window_start st) sz [a_window_end st + 1 ..< sz] of
        Inl e \<Rightarrow> None
      | Inr w_end \<Rightarrow>
          if w_end < length time \<and> a_window_start st < length time
             \<and> \<not> (2 * (time ! w_end - time ! a_window_start st) < flight_duration
                    \<or> int w_end - int (a_window_start st) < 5)
          then Some (a_window_start st, w_end)
          else None)"

definition align_fitted ::
  "(rat list \<Rightarrow> rat list) \<Rightarrow> int list \<Rightarrow> int list \<Rightarrow> int \<Rightarrow> nat \<Rightarrow> (nat \<times> nat) option" where
  "align_fitted interp cnt_1mn time flight_duration j =
     (case align_iter interp cnt_1mn time flight_duration (length time) j
             (align_init (length time)) of
        None \<Rightarrow> None
      | Some sj \<Rightarrow> if a_window_end sj = length time - 1 then None
                   else align_span time flight_duration (length time) sj)"

section \<open>FileFormat: \<^verbatim>\<open>write_newlog\<close> and \<^verbatim>\<open>read_processed_log\<close>\<close>

text \<open>
  A \<^verbatim>\<open>str\<close> is a \<open>string\<close>: the bytes of its UTF-8 encoding, and a file is the list of the
  bytes written to it.  The built-ins and libraries that the two functions call are
  parameters, the fields of \<open>pylib\<close>: the format specifications \<^verbatim>\<open>{n}\<close>, \<^verbatim>\<open>{x:.5f}\<close>,
  \<^verbatim>\<open>{x:.0f}\<close> and \<^verbatim>\<open>{x:.4e}\<close> of the f-strings, \<^verbatim>\<open>strftime\<close> and \<^verbatim>\<open>strptime\<close> with the
  format \<^verbatim>\<open>'%Y-%m-%dT%H:%M:%SZ'\<close>, \<^verbatim>\<open>int\<close> and \<^verbatim>\<open>float\<close> of a text without surrounding
  white space (\<open>None\<close> when they raise \<^verbatim>\<open>ValueError\<close>), \<^verbatim>\<open>datetime.date()\<close> as a number
  of days, and the city of an airport code in \<^verbatim>\<open>airportsdata.load("ICAO")\<close> (\<open>None\<close> for
  a code that is not listed).
\<close>

record pylib =
  fmt_int :: "int \<Rightarrow> string"
  fmt_f5 :: "rat \<Rightarrow> string"
  fmt_f0 :: "rat \<Rightarrow> string"
  fmt_e4 :: "rat \<Rightarrow> string"
  strftime :: "int \<Rightarrow> string"
  to_int :: "string \<Rightarrow> int option"
  to_float :: "string \<Rightarrow> rat option"
  strptime :: "string \<Rightarrow> int option"
  date_of :: "int \<Rightarrow> int"
  airports_city :: "string \<Rightarrow> string option"

text \<open>
  The dictionary \<^verbatim>\<open>data\<close> of both functions.  The keys \<^verbatim>\<open>'cari_total'\<close> and
  \<^verbatim>\<open>'total-neutron'\<close> are present together or not at all: the field \<open>log_reference\<close>.
  \<^verbatim>\<open>time_offset\<close> and \<^verbatim>\<open>R2\<close> are texts, as \<^verbatim>\<open>read_raw_log\<close> stores them.  The prefix
  \<open>log_\<close> keeps the field names apart from the variables of the other sections.
\<close>

record log_data =
  log_device_id :: string
  log_flight_number :: string
  log_citizen_id :: string
  log_origin :: string
  log_destination :: string
  log_origin_ICAO :: string
  log_destination_ICAO :: string
  log_date :: "int option"
  log_takeoff :: "int option"
  log_landing :: "int option"
  log_time_offset :: string
  log_R2 :: string
  log_scaling_factor :: rat
  log_timestamps :: string
  log_cnt_1mn :: "int list"
  log_cnt_5sc :: "int list"
  log_time :: "int list"
  log_lat :: "rat list"
  log_lon :: "rat list"
  log_alt :: "rat list"
  log_reference :: "(rat list \<times> rat list) option"

text \<open>
  \<^verbatim>\<open>str.strip()\<close>, with the white space of ASCII, and \<^verbatim>\<open>str.lower()\<close> on the letters of
  ASCII.
\<close>

definition is_space :: "char \<Rightarrow> bool" where
  "is_space c = (c \<in> set [CHR 0x09, CHR 0x0A, CHR 0x0B, CHR 0x0C, CHR 0x0D,
                           CHR 0x1C, CHR 0x1D, CHR 0x1E, CHR 0x1F, CHR '' ''])"

definition py_strip :: "string \<Rightarrow> string" where
  "py_strip s = rev (dropWhile is_space (rev (dropWhile is_space s)))"

definition py_lower :: "string \<Rightarrow> string" where
  "py_lower s =
     map (\<lambda>c. if (65 :: int) \<le> of_char c \<and> of_char c \<le> (90 :: int)
              then char_of (of_char c + (32 :: int)) else c) s"

text \<open>
  \<^verbatim>\<open>line.split(",")\<close>, with the separator as a parameter, and the nested helper
  \<^verbatim>\<open>strip_context(string) = string[string.find("=")+1:].strip()\<close>: without a \<^verbatim>\<open>=\<close>,
  \<^verbatim>\<open>find\<close> returns \<open>-1\<close> and the slice is the whole string.
\<close>

fun py_split :: "char \<Rightarrow> string \<Rightarrow> string \<Rightarrow> string list" where
  "py_split sep acc [] = [rev acc]"
| "py_split sep acc (c # s) = (if c = sep then rev acc # py_split sep [] s else py_split sep (c # acc) s)"

definition strip_context :: "string \<Rightarrow> string" where
  "strip_context s =
     py_strip (if CHR ''='' \<in> set s then tl (dropWhile (\<lambda>c. c \<noteq> CHR ''='') s) else s)"

text \<open>The end of a line: one line feed.\<close>

definition nl :: string where "nl = [CHR 0x0A]"

text \<open>
  \<^verbatim>\<open>write_newlog\<close> in four parts.  First the lines that depend on the lowered device id,
  \<^verbatim>\<open>if "safecast" in device_id: ... elif "uct" in device_id: ...\<close>; no line is written for
  an id that matches none.
\<close>

definition device_lines :: "string \<Rightarrow> string list" where
  "device_lines device_id_l =
     (if sublist ''safecast'' device_id_l then
        [''# detector_native_quantity = cnt_5s'' @ nl,
         ''# cnt_1min_source = original'' @ nl,
         ''# cnt_5s_source = original'' @ nl]
      else if sublist ''uct'' device_id_l then
        [''# detector_native_quantity = event_timestamps'' @ nl,
         ''# cnt_1min_source = derived'' @ nl,
         ''# cnt_5s_source = derived'' @ nl]
      else if sublist ''radiacode'' device_id_l \<or> sublist ''rium'' device_id_l then
        [''# detector_native_quantity = average_cps_over_1_minute'' @ nl,
         ''# cnt_1min_source = derived'' @ nl,
         ''# cnt_5s_source = derived'' @ nl]
      else if sublist ''gmc'' device_id_l then
        [''# detector_native_quantity = cnt_1mn'' @ nl,
         ''# cnt_1min_source = original'' @ nl,
         ''# cnt_5s_source = derived'' @ nl]
      else [])"

text \<open>The two bytes of the letter mu in \<^verbatim>\<open>"Sv/h"\<close> with its prefix.\<close>

definition micro :: string where "micro = [CHR 0xCE, CHR 0xBC]"

text \<open>
  The block \<^verbatim>\<open>if 'cari_total' in data: ... else: ...\<close>.  Without reference data the time
  offset and the fit are written as \<^verbatim>\<open>???\<close>, and the scaling factor is written only when
  it is positive.
\<close>

definition reference_lines :: "pylib \<Rightarrow> log_data \<Rightarrow> string list" where
  "reference_lines lib data =
     (if log_reference data \<noteq> None then
        [''#'' @ nl,
         ''# reference_id = cari7a'' @ nl,
         ''# reference_model = CARI-7A'' @ nl,
         ''# reference_quantity = H*(10)_total-neutron'' @ nl,
         ''# reference_alignment_method = time_offset_max_r2'' @ nl,
         ''# reference_time_offset_s = '' @ log_time_offset data @ nl,
         ''# reference_scaling_beta = '' @ fmt_e4 lib (log_scaling_factor data) @ nl,
         ''# reference_scaling_units = '' @ micro @ ''Sv/h / CPM'' @ nl,
         ''# reference_fit_r2 = '' @ log_R2 data @ nl,
         ''#'' @ nl,
         ''# simulation_model = CARI-7A'' @ nl,
         ''# simulation_version = ???'' @ nl,
         ''# simulation_total = H*10_total'' @ nl,
         ''# simulation_neutron = H*10_neutron'' @ nl,
         ''# simulation_unit = '' @ micro @ ''Sv/h'' @ nl]
      else
        [''#'' @ nl,
         ''# reference_id = ???'' @ nl,
         ''# reference_model = ???'' @ nl,
         ''# reference_quantity = ???'' @ nl,
         ''# reference_alignment_method = ???'' @ nl,
         ''# reference_time_offset_s = ???'' @ nl,
         (if log_scaling_factor data > 0
          then ''# reference_scaling_beta = '' @ fmt_e4 lib (log_scaling_factor data) @ nl
          else ''# reference_scaling_beta = ???'' @ nl),
         ''# reference_scaling_units = ???'' @ nl,
         ''# reference_fit_r2 = ???'' @ nl,
         ''#'' @ nl,
         ''# simulation_model = ???'' @ nl,
         ''# simulation_version = ???'' @ nl,
         ''# simulation_total = ???'' @ nl,
         ''# simulation_neutron = ???'' @ nl,
         ''# simulation_unit = ???'' @ nl])"

text \<open>
  The flight information, the units and the declaration of the columns.  \<open>t_off\<close> and
  \<open>t_land\<close> are \<^verbatim>\<open>data['takeoff']\<close> and \<^verbatim>\<open>data['landing']\<close>.
\<close>

definition flight_lines :: "pylib \<Rightarrow> log_data \<Rightarrow> int \<Rightarrow> int \<Rightarrow> string list" where
  "flight_lines lib data t_off t_land =
     [''#'' @ nl,
      ''# airport_code_type = ICAO'' @ nl,
      ''# origin = '' @ log_origin_ICAO data @ nl,
      ''# destination = '' @ log_destination_ICAO data @ nl,
      ''# flight_number = '' @ log_flight_number data @ nl,
      ''# takeoff_utc = '' @ strftime lib t_off @ nl,
      ''# landing_utc = '' @ strftime lib t_land @ nl,
      ''#'' @ nl,
      ''# detector_timestamps = '' @ log_timestamps data @ nl,
      ''#'' @ nl,
      ''# timestamp_format = UTC_ISO8601'' @ nl,
      ''# latitude_unit = degrees'' @ nl,
      ''# longitude_unit = degrees'' @ nl,
      ''# altitude_unit = metres'' @ nl,
      ''#'' @ nl,
      ''# citizen_id = '' @ log_citizen_id data @ nl,
      ''#'' @ nl,
      (if log_reference data \<noteq> None
       then ''# columns = timestamp_utc, cnt_1min, cnt_5s, latitude, longitude, altitude, simulation_total, simulation_neutron'' @ nl
       else ''# columns = timestamp_utc, cnt_1min, cnt_5s, latitude, longitude, altitude'' @ nl)]"

text \<open>
  \<^verbatim>\<open>", ".join([...])\<close> and one run of \<^verbatim>\<open>for i in range(len(data['time']))\<close>: the line of
  sample \<open>i\<close>.  An index beyond one of the arrays raises.
\<close>

definition py_join :: "string \<Rightarrow> string list \<Rightarrow> string" where
  "py_join sep xs = (case xs of [] \<Rightarrow> [] | x # rest \<Rightarrow> x @ concat (map (\<lambda>y. sep @ y) rest))"

definition row_line :: "pylib \<Rightarrow> log_data \<Rightarrow> nat \<Rightarrow> py_error + string" where
  "row_line lib data i =
     (if i < length (log_cnt_1mn data) \<and> i < length (log_cnt_5sc data) \<and> i < length (log_lat data)
         \<and> i < length (log_lon data) \<and> i < length (log_alt data) then
        (let line = py_join '', ''
               [strftime lib (log_time data ! i), fmt_int lib (log_cnt_1mn data ! i),
                fmt_int lib (log_cnt_5sc data ! i), fmt_f5 lib (log_lat data ! i),
                fmt_f5 lib (log_lon data ! i), fmt_f0 lib (log_alt data ! i)]
         in case log_reference data of
              None \<Rightarrow> Inr (line @ nl)
            | Some (cari_total, total_neutron) \<Rightarrow>
                if i < length cari_total \<and> i < length total_neutron then
                  Inr (line @ '', '' @ py_join '', ''
                         [fmt_e4 lib (cari_total ! i),
                          fmt_e4 lib (cari_total ! i - total_neutron ! i)] @ nl)
                else Inl IndexError)
      else Inl IndexError)"

fun row_lines :: "pylib \<Rightarrow> log_data \<Rightarrow> nat list \<Rightarrow> py_error + string list" where
  "row_lines lib data [] = Inr []"
| "row_lines lib data (i # rest) =
     (case row_line lib data i of
        Inl e \<Rightarrow> Inl e
      | Inr l \<Rightarrow> (case row_lines lib data rest of Inl e \<Rightarrow> Inl e | Inr ls \<Rightarrow> Inr (l # ls)))"

text \<open>
  The arguments of the calls of \<^verbatim>\<open>f.write\<close>, in their order; \<^verbatim>\<open>version\<close> is \<^verbatim>\<open>"v1"\<close>.
  \<^verbatim>\<open>data['takeoff'].strftime\<close> raises \<^verbatim>\<open>AttributeError\<close> when the takeoff is \<^verbatim>\<open>None\<close>,
  before any row is written.  The file is the concatenation of what was written.
\<close>

definition newlog_writes :: "pylib \<Rightarrow> log_data \<Rightarrow> py_error + string list" where
  "newlog_writes lib data =
     (case (log_takeoff data, log_landing data) of
        (Some t_off, Some t_land) \<Rightarrow>
          (case row_lines lib data [0 ..< length (log_time data)] of
             Inl e \<Rightarrow> Inl e
           | Inr rows \<Rightarrow>
               Inr ([''# format = processedCOA-v1'' @ nl,
                     ''# data delimiter = comma'' @ nl,
                     ''#'' @ nl,
                     ''# device_id = '' @ log_device_id data @ nl,
                     ''# detector_model = ???'' @ nl]
                    @ device_lines (py_lower (log_device_id data))
                    @ [''# processing_pipeline = ???'' @ nl]
                    @ reference_lines lib data
                    @ flight_lines lib data t_off t_land
                    @ rows))
      | _ \<Rightarrow> Inl AttributeError)"

definition write_newlog :: "pylib \<Rightarrow> log_data \<Rightarrow> py_error + string" where
  "write_newlog lib data =
     (case newlog_writes lib data of Inl e \<Rightarrow> Inl e | Inr writes \<Rightarrow> Inr (concat writes))"

text \<open>
  \<^verbatim>\<open>for line in f\<close> on a file opened in text mode: a carriage return, alone or before
  a line feed, is read as a line feed, and every line keeps its line feed; only the last
  line may lack it.
\<close>

fun universal_newlines :: "string \<Rightarrow> string" where
  "universal_newlines [] = []"
| "universal_newlines [c] = (if c = CHR 0x0D then [CHR 0x0A] else [c])"
| "universal_newlines (c # d # s) =
     (if c = CHR 0x0D \<and> d = CHR 0x0A then CHR 0x0A # universal_newlines s
      else if c = CHR 0x0D then CHR 0x0A # universal_newlines (d # s)
      else c # universal_newlines (d # s))"

fun file_lines :: "string \<Rightarrow> string \<Rightarrow> string list" where
  "file_lines acc [] = (if acc = [] then [] else [rev acc])"
| "file_lines acc (c # s) =
     (if c = CHR 0x0A then rev (c # acc) # file_lines [] s else file_lines (c # acc) s)"

text \<open>
  The chain \<^verbatim>\<open>if "device_id =" in line: ... elif "reference_fit_r2 =" in line: ...\<close> of
  \<^verbatim>\<open>read_processed_log\<close>: the first key that occurs in the line decides.
\<close>

datatype line_kind =
    K_device_id | K_fit_r2 | K_time_offset | K_origin | K_destination | K_flight_number
  | K_takeoff | K_landing | K_simulation | K_scaling | K_citizen | K_timestamps | K_none

definition header_kind :: "string \<Rightarrow> line_kind" where
  "header_kind line =
     (if sublist ''device_id ='' line then K_device_id
      else if sublist ''reference_fit_r2 ='' line then K_fit_r2
      else if sublist ''reference_time_offset_s ='' line then K_time_offset
      else if sublist ''origin ='' line then K_origin
      else if sublist ''destination ='' line then K_destination
      else if sublist ''flight_number ='' line then K_flight_number
      else if sublist ''takeoff_utc ='' line then K_takeoff
      else if sublist ''landing_utc ='' line then K_landing
      else if sublist ''simulation_model = CARI-7A'' line then K_simulation
      else if sublist ''reference_scaling_beta ='' line then K_scaling
      else if sublist ''citizen_id ='' line then K_citizen
      else if sublist ''detector_timestamps ='' line then K_timestamps
      else K_none)"

text \<open>\<^verbatim>\<open>float(s)\<close> and \<^verbatim>\<open>int(s)\<close> ignore surrounding white space.\<close>

definition py_float :: "pylib \<Rightarrow> string \<Rightarrow> rat option" where
  "py_float lib s = to_float lib (py_strip s)"

definition py_int :: "pylib \<Rightarrow> string \<Rightarrow> int option" where
  "py_int lib s = to_int lib (py_strip s)"

text \<open>
  The branch of \<^verbatim>\<open>line.startswith("#")\<close>.  \<^verbatim>\<open>airports.get(code)['city']\<close> raises
  \<^verbatim>\<open>TypeError\<close> for a code that is not listed, \<^verbatim>\<open>strptime\<close> raises \<^verbatim>\<open>ValueError\<close>, and the
  scaling factor is read under \<^verbatim>\<open>try: ... except: data['scaling_factor'] = 0.0\<close>.  The
  line \<^verbatim>\<open>simulation_model = CARI-7A\<close> sets \<^verbatim>\<open>has_reference\<close> and the two empty lists.
\<close>

definition read_header :: "pylib \<Rightarrow> log_data \<Rightarrow> string \<Rightarrow> py_error + log_data" where
  "read_header lib data line =
     (case header_kind line of
        K_device_id \<Rightarrow> Inr (data\<lparr>log_device_id := strip_context line\<rparr>)
      | K_fit_r2 \<Rightarrow> Inr (data\<lparr>log_R2 := strip_context line\<rparr>)
      | K_time_offset \<Rightarrow> Inr (data\<lparr>log_time_offset := strip_context line\<rparr>)
      | K_origin \<Rightarrow>
          (case airports_city lib (strip_context line) of
             None \<Rightarrow> Inl TypeError
           | Some city \<Rightarrow> Inr (data\<lparr>log_origin_ICAO := strip_context line, log_origin := city\<rparr>))
      | K_destination \<Rightarrow>
          (case airports_city lib (strip_context line) of
             None \<Rightarrow> Inl TypeError
           | Some city \<Rightarrow> Inr (data\<lparr>log_destination_ICAO := strip_context line, log_destination := city\<rparr>))
      | K_flight_number \<Rightarrow> Inr (data\<lparr>log_flight_number := strip_context line\<rparr>)
      | K_takeoff \<Rightarrow>
          (case strptime lib (strip_context line) of
             None \<Rightarrow> Inl ValueError
           | Some t \<Rightarrow> Inr (data\<lparr>log_takeoff := Some t, log_date := Some (date_of lib t)\<rparr>))
      | K_landing \<Rightarrow>
          (case strptime lib (strip_context line) of
             None \<Rightarrow> Inl ValueError
           | Some t \<Rightarrow> Inr (data\<lparr>log_landing := Some t\<rparr>))
      | K_simulation \<Rightarrow> Inr (data\<lparr>log_reference := Some ([], [])\<rparr>)
      | K_scaling \<Rightarrow>
          (case py_float lib (strip_context line) of
             None \<Rightarrow> Inr (data\<lparr>log_scaling_factor := 0\<rparr>)
           | Some x \<Rightarrow> Inr (data\<lparr>log_scaling_factor := x\<rparr>))
      | K_citizen \<Rightarrow> Inr (data\<lparr>log_citizen_id := strip_context line\<rparr>)
      | K_timestamps \<Rightarrow> Inr (data\<lparr>log_timestamps := strip_context line\<rparr>)
      | K_none \<Rightarrow> Inr data)"

text \<open>
  The \<^verbatim>\<open>else\<close> branch: a data row.  The fields are read from left to right;
  \<^verbatim>\<open>row[k]\<close> raises \<^verbatim>\<open>IndexError\<close> on a short row, and the conversions raise
  \<^verbatim>\<open>ValueError\<close>.  The last column is the neutron dose, and the record keeps
  \<^verbatim>\<open>float(row[6]) - float(row[7])\<close>.
\<close>

definition read_row :: "pylib \<Rightarrow> log_data \<Rightarrow> string \<Rightarrow> py_error + log_data" where
  "read_row lib data line =
     (let row = py_split CHR '','' [] line in
      case strptime lib (py_strip (row ! 0)) of
        None \<Rightarrow> Inl ValueError
      | Some t \<Rightarrow>
          if length row < 2 then Inl IndexError else
          (case py_int lib (row ! 1) of None \<Rightarrow> Inl ValueError | Some c1 \<Rightarrow>
           if length row < 3 then Inl IndexError else
           (case py_int lib (row ! 2) of None \<Rightarrow> Inl ValueError | Some c5 \<Rightarrow>
            if length row < 4 then Inl IndexError else
            (case py_float lib (row ! 3) of None \<Rightarrow> Inl ValueError | Some la \<Rightarrow>
             if length row < 5 then Inl IndexError else
             (case py_float lib (row ! 4) of None \<Rightarrow> Inl ValueError | Some lo \<Rightarrow>
              if length row < 6 then Inl IndexError else
              (case py_float lib (row ! 5) of None \<Rightarrow> Inl ValueError | Some al \<Rightarrow>
               (let data' = data\<lparr>log_time := log_time data @ [t], log_cnt_1mn := log_cnt_1mn data @ [c1],
                                  log_cnt_5sc := log_cnt_5sc data @ [c5], log_lat := log_lat data @ [la],
                                  log_lon := log_lon data @ [lo], log_alt := log_alt data @ [al]\<rparr>
                in case log_reference data of
                     None \<Rightarrow> Inr data'
                   | Some (cari_total, total_neutron) \<Rightarrow>
                       if length row < 7 then Inl IndexError else
                       (case py_float lib (row ! 6) of None \<Rightarrow> Inl ValueError | Some tot \<Rightarrow>
                        if length row < 8 then Inl IndexError else
                        (case py_float lib (row ! 7) of None \<Rightarrow> Inl ValueError | Some neu \<Rightarrow>
                         Inr (data'\<lparr>log_reference :=
                                Some (cari_total @ [tot], total_neutron @ [tot - neu])\<rparr>))))))))))"

text \<open>The body of \<^verbatim>\<open>for line in f\<close>, the loop, and the dictionary before the loop.\<close>

definition read_line :: "pylib \<Rightarrow> log_data \<Rightarrow> string \<Rightarrow> py_error + log_data" where
  "read_line lib data line =
     (if prefix ''#'' line then read_header lib data line else read_row lib data line)"

fun read_lines :: "pylib \<Rightarrow> log_data \<Rightarrow> string list \<Rightarrow> py_error + log_data" where
  "read_lines lib data [] = Inr data"
| "read_lines lib data (line # rest) =
     (case read_line lib data line of
        Inl e \<Rightarrow> Inl e
      | Inr data' \<Rightarrow> read_lines lib data' rest)"

definition empty_data :: log_data where
  "empty_data = \<lparr>log_device_id = [], log_flight_number = [], log_citizen_id = [], log_origin = [],
                 log_destination = [], log_origin_ICAO = [], log_destination_ICAO = [], log_date = None,
                 log_takeoff = None, log_landing = None, log_time_offset = [], log_R2 = [],
                 log_scaling_factor = 0, log_timestamps = [], log_cnt_1mn = [], log_cnt_5sc = [], log_time = [],
                 log_lat = [], log_lon = [], log_alt = [], log_reference = None\<rparr>"

definition read_processed_log :: "pylib \<Rightarrow> string \<Rightarrow> py_error + log_data" where
  "read_processed_log lib text =
     read_lines lib empty_data (file_lines [] (universal_newlines text))"

text \<open>Writing a record and reading the file back.\<close>

definition write_then_read :: "pylib \<Rightarrow> log_data \<Rightarrow> py_error + log_data" where
  "write_then_read lib data =
     (case write_newlog lib data of Inl e \<Rightarrow> Inl e | Inr text \<Rightarrow> read_processed_log lib text)"

section \<open>Records that the file format can hold\<close>

text \<open>
  A text without white space at either end; a text that fits the value of a header line:
  ASCII, no \<^verbatim>\<open>=\<close>, no line break, no white space at either end; a text that fits a field
  of a data row: no comma either; and a line as the writer produces it.
\<close>

definition trimmed :: "string \<Rightarrow> bool" where
  "trimmed v = (v = [] \<or> (\<not> is_space (hd v) \<and> \<not> is_space (last v)))"

definition plain_char :: "char \<Rightarrow> bool" where
  "plain_char c = (c \<notin> set [CHR ''='', CHR 0x0A, CHR 0x0D] \<and> of_char c < (128 :: int))"

definition plain :: "string \<Rightarrow> bool" where
  "plain v = (trimmed v \<and> list_all plain_char v)"

definition field :: "string \<Rightarrow> bool" where
  "field v = (plain v \<and> CHR '','' \<notin> set v)"

definition text_line :: "string \<Rightarrow> bool" where
  "text_line l = (l \<noteq> [] \<and> last l = CHR 0x0A \<and> CHR 0x0A \<notin> set (butlast l) \<and> CHR 0x0D \<notin> set l)"

text \<open>Reading on after a part of the file.\<close>

fun read_lines_from :: "pylib \<Rightarrow> py_error + log_data \<Rightarrow> string list \<Rightarrow> py_error + log_data" where
  "read_lines_from lib (Inl e) ls = Inl e"
| "read_lines_from lib (Inr d) ls = read_lines lib d ls"

text \<open>
  What a decimal rendering keeps of a number: the nearest multiple of \<open>10\<^sup>-\<^sup>k\<close> for
  \<^verbatim>\<open>{x:.kf}\<close>, and five significant digits for \<^verbatim>\<open>{x:.4e}\<close>, ties to the even digit.  The
  decimal exponent is searched in at most \<open>400\<close> steps, more than a \<^verbatim>\<open>float64\<close> needs.
\<close>

definition round_half_even :: "rat \<Rightarrow> int" where
  "round_half_even x =
     (let f = \<lfloor>x\<rfloor>; d = x - of_int f
      in if d < 1 / 2 then f else if 1 / 2 < d then f + 1 else if even f then f else f + 1)"

definition round_dec :: "nat \<Rightarrow> rat \<Rightarrow> rat" where
  "round_dec k x =
     (if x < 0 then - (of_int (round_half_even (- x * 10 ^ k)) / 10 ^ k)
      else of_int (round_half_even (x * 10 ^ k)) / 10 ^ k)"

fun exponent10 :: "nat \<Rightarrow> rat \<Rightarrow> int" where
  "exponent10 0 x = 0"
| "exponent10 (Suc fuel) x =
     (if 10 \<le> x then 1 + exponent10 fuel (x / 10)
      else if x < 1 then exponent10 fuel (x * 10) - 1
      else 0)"

definition pow10 :: "int \<Rightarrow> rat" where
  "pow10 e = (if 0 \<le> e then 10 ^ nat e else 1 / 10 ^ nat (- e))"

definition round_sig5 :: "rat \<Rightarrow> rat" where
  "round_sig5 x =
     (if x = 0 then 0
      else (let e = exponent10 400 \<bar>x\<bar>;
                m = of_int (round_half_even (\<bar>x\<bar> / pow10 (e - 4))) * pow10 (e - 4)
            in if x < 0 then - m else m))"

text \<open>
  The line of sample \<open>i\<close>, the arrays of a record having one length, and the dose values
  that \<^verbatim>\<open>write_newlog\<close> formats.
\<close>

definition row_text :: "pylib \<Rightarrow> log_data \<Rightarrow> nat \<Rightarrow> string" where
  "row_text lib data i =
     py_join '', ''
       [strftime lib (log_time data ! i), fmt_int lib (log_cnt_1mn data ! i),
        fmt_int lib (log_cnt_5sc data ! i), fmt_f5 lib (log_lat data ! i),
        fmt_f5 lib (log_lon data ! i), fmt_f0 lib (log_alt data ! i)]
     @ (case log_reference data of
          None \<Rightarrow> []
        | Some (cari_total, total_neutron) \<Rightarrow>
            '', '' @ py_join '', ''
              [fmt_e4 lib (cari_total ! i), fmt_e4 lib (cari_total ! i - total_neutron ! i)])
     @ nl"

definition rows_in_range :: "log_data \<Rightarrow> bool" where
  "rows_in_range data =
     (length (log_cnt_1mn data) = length (log_time data) \<and> length (log_cnt_5sc data) = length (log_time data)
      \<and> length (log_lat data) = length (log_time data) \<and> length (log_lon data) = length (log_time data)
      \<and> length (log_alt data) = length (log_time data)
      \<and> (case log_reference data of
            None \<Rightarrow> True
          | Some (cari_total, total_neutron) \<Rightarrow>
              length cari_total = length (log_time data) \<and> length total_neutron = length (log_time data)))"

definition dose_values :: "log_data \<Rightarrow> rat list" where
  "dose_values data =
     (case log_reference data of
        None \<Rightarrow> (if 0 < log_scaling_factor data then [log_scaling_factor data] else [])
      | Some (cari_total, total_neutron) \<Rightarrow>
          log_scaling_factor data # cari_total @ map2 (\<lambda>c n. c - n) cari_total total_neutron)"

text \<open>
  What the proofs need of the library, for the values of one record: each rendered text
  fits a field, and reading it gives the value back, rounded as the format says.  No
  timestamp is rendered with a leading \<^verbatim>\<open>#\<close>, and \<^verbatim>\<open>float("???")\<close> raises.
\<close>

definition renders_time :: "pylib \<Rightarrow> int \<Rightarrow> bool" where
  "renders_time lib t =
     (field (strftime lib t) \<and> \<not> prefix ''#'' (strftime lib t)
      \<and> strptime lib (strftime lib t) = Some t)"

definition renders_count :: "pylib \<Rightarrow> int \<Rightarrow> bool" where
  "renders_count lib n = (field (fmt_int lib n) \<and> to_int lib (fmt_int lib n) = Some n)"

definition renders_position :: "pylib \<Rightarrow> rat \<Rightarrow> bool" where
  "renders_position lib x =
     (field (fmt_f5 lib x) \<and> to_float lib (fmt_f5 lib x) = Some (round_dec 5 x))"

definition renders_altitude :: "pylib \<Rightarrow> rat \<Rightarrow> bool" where
  "renders_altitude lib x =
     (field (fmt_f0 lib x) \<and> to_float lib (fmt_f0 lib x) = Some (round_dec 0 x))"

definition renders_dose :: "pylib \<Rightarrow> rat \<Rightarrow> bool" where
  "renders_dose lib x =
     (field (fmt_e4 lib x) \<and> to_float lib (fmt_e4 lib x) = Some (round_sig5 x))"

definition lib_renders :: "pylib \<Rightarrow> log_data \<Rightarrow> int \<Rightarrow> int \<Rightarrow> bool" where
  "lib_renders lib data t_off t_land =
     (list_all (renders_time lib) (t_off # t_land # log_time data)
      \<and> list_all (renders_count lib) (log_cnt_1mn data @ log_cnt_5sc data)
      \<and> list_all (renders_position lib) (log_lat data @ log_lon data)
      \<and> list_all (renders_altitude lib) (log_alt data)
      \<and> list_all (renders_dose lib) (dose_values data)
      \<and> to_float lib ''???'' = None)"

text \<open>The texts of a record that the header holds.\<close>

definition plain_metadata :: "log_data \<Rightarrow> bool" where
  "plain_metadata data =
     list_all plain [log_device_id data, log_flight_number data, log_citizen_id data, log_origin_ICAO data,
                     log_destination_ICAO data, log_timestamps data, log_time_offset data, log_R2 data]"

text \<open>
  The record that is read back.  Without reference data the time offset and the fit come
  back as \<^verbatim>\<open>???\<close> and a scaling factor that is not positive comes back as \<open>0\<close>.  The
  reference dose \<^verbatim>\<open>total-neutron\<close> comes back as the difference of the two rounded columns.
\<close>

definition reread_record :: "log_data \<Rightarrow> log_data" where
  "reread_record data =
     data\<lparr>log_time_offset := (if log_reference data = None then ''???'' else log_time_offset data),
          log_R2 := (if log_reference data = None then ''???'' else log_R2 data),
          log_scaling_factor :=
            (if log_reference data = None \<and> log_scaling_factor data \<le> 0 then 0
             else round_sig5 (log_scaling_factor data)),
          log_lat := map (round_dec 5) (log_lat data),
          log_lon := map (round_dec 5) (log_lon data),
          log_alt := map (round_dec 0) (log_alt data),
          log_reference :=
            (case log_reference data of
               None \<Rightarrow> None
             | Some (cari_total, total_neutron) \<Rightarrow>
                 Some (map round_sig5 cari_total,
                       map2 (\<lambda>c n. round_sig5 c - round_sig5 (c - n)) cari_total total_neutron))\<rparr>"

section \<open>A formatting library for the scenarios\<close>

text \<open>
  Decimal renderings and their parsers on exact numbers, and the calendar of
  \<^verbatim>\<open>datetime\<close> (proleptic Gregorian, days counted from 1970-01-01), for years of four
  digits.
\<close>

definition digit_char :: "int \<Rightarrow> char" where
  "digit_char n = char_of (48 + n)"

function show_nat :: "int \<Rightarrow> string" where
  "show_nat n = (if n < 10 then [digit_char n] else show_nat (n div 10) @ [digit_char (n mod 10)])"
  by pat_completeness auto
termination
  by (relation "measure nat") auto

definition zero_pad :: "nat \<Rightarrow> string \<Rightarrow> string" where
  "zero_pad w s = replicate (w - length s) CHR ''0'' @ s"

definition show_int :: "int \<Rightarrow> string" where
  "show_int n = (if n < 0 then ''-'' else []) @ show_nat \<bar>n\<bar>"

definition show_fixed :: "nat \<Rightarrow> rat \<Rightarrow> string" where
  "show_fixed k x =
     (let n = round_half_even (\<bar>x\<bar> * 10 ^ k)
      in (if x < 0 then ''-'' else []) @ show_nat (n div 10 ^ k)
         @ (if k = 0 then [] else ''.'' @ zero_pad k (show_nat (n mod 10 ^ k))))"

definition show_exp4 :: "rat \<Rightarrow> string" where
  "show_exp4 x =
     (if x = 0 then ''0.0000e+00''
      else (let e0 = exponent10 400 \<bar>x\<bar>;
                m0 = round_half_even (\<bar>x\<bar> / pow10 (e0 - 4));
                e = (if 100000 \<le> m0 then e0 + 1 else e0);
                m = (if 100000 \<le> m0 then 10000 else m0)
            in (if x < 0 then ''-'' else []) @ show_nat (m div 10000) @ ''.''
               @ zero_pad 4 (show_nat (m mod 10000)) @ ''e''
               @ (if e < 0 then ''-'' else ''+'') @ zero_pad 2 (show_nat \<bar>e\<bar>)))"

definition is_digit :: "char \<Rightarrow> bool" where
  "is_digit c = ((48 :: int) \<le> of_char c \<and> of_char c \<le> (57 :: int))"

definition read_nat :: "string \<Rightarrow> int option" where
  "read_nat s =
     (if s \<noteq> [] \<and> list_all is_digit s
      then Some (foldl (\<lambda>n c. 10 * n + (of_char c - 48)) 0 s) else None)"

definition read_int :: "string \<Rightarrow> int option" where
  "read_int s =
     (case s of
        [] \<Rightarrow> None
      | c # rest \<Rightarrow>
          if c = CHR ''-'' then map_option uminus (read_nat rest)
          else if c = CHR ''+'' then read_nat rest
          else read_nat s)"

definition read_decimal :: "string \<Rightarrow> rat option" where
  "read_decimal s =
     (let neg = (s \<noteq> [] \<and> hd s = CHR ''-'');
          body = (if s \<noteq> [] \<and> (hd s = CHR ''-'' \<or> hd s = CHR ''+'') then tl s else s);
          ip = takeWhile (\<lambda>c. c \<noteq> CHR ''.'') body;
          fp = drop (length ip + 1) body
      in case (read_nat ip, if CHR ''.'' \<in> set body then read_nat fp else Some 0) of
           (Some i, Some f) \<Rightarrow>
             (let v = of_int i + of_int f / 10 ^ length fp in Some (if neg then - v else v))
         | _ \<Rightarrow> None)"

definition read_float :: "string \<Rightarrow> rat option" where
  "read_float s =
     (let m = takeWhile (\<lambda>c. c \<noteq> CHR ''e'') s;
          ex = drop (length m + 1) s
      in if CHR ''e'' \<in> set s
         then (case (read_decimal m, read_int ex) of
                 (Some v, Some e) \<Rightarrow> Some (v * pow10 e)
               | _ \<Rightarrow> None)
         else read_decimal s)"

definition days_from_civil :: "int \<Rightarrow> int \<Rightarrow> int \<Rightarrow> int" where
  "days_from_civil y0 m d =
     (let y = (if m \<le> 2 then y0 - 1 else y0);
          era = y div 400;
          yoe = y - era * 400;
          doy = (153 * (if m > 2 then m - 3 else m + 9) + 2) div 5 + d - 1;
          doe = yoe * 365 + yoe div 4 - yoe div 100 + doy
      in era * 146097 + doe - 719468)"

definition civil_from_days :: "int \<Rightarrow> int \<times> int \<times> int" where
  "civil_from_days z0 =
     (let z = z0 + 719468;
          era = z div 146097;
          doe = z - era * 146097;
          yoe = (doe - doe div 1460 + doe div 36524 - doe div 146096) div 365;
          doy = doe - (365 * yoe + yoe div 4 - yoe div 100);
          mp = (5 * doy + 2) div 153;
          d = doy - (153 * mp + 2) div 5 + 1;
          m = (if mp < 10 then mp + 3 else mp - 9)
      in (yoe + era * 400 + (if m \<le> 2 then 1 else 0), m, d))"

definition show_datetime :: "int \<Rightarrow> string" where
  "show_datetime t =
     (let (y, m, d) = civil_from_days (t div 86400); s = t mod 86400
      in zero_pad 4 (show_nat y) @ ''-'' @ zero_pad 2 (show_nat m) @ ''-''
         @ zero_pad 2 (show_nat d) @ ''T'' @ zero_pad 2 (show_nat (s div 3600))
         @ '':'' @ zero_pad 2 (show_nat (s mod 3600 div 60)) @ '':''
         @ zero_pad 2 (show_nat (s mod 60)) @ ''Z'')"

definition read_datetime :: "string \<Rightarrow> int option" where
  "read_datetime s =
     (if length s = 20 \<and> s ! 4 = CHR ''-'' \<and> s ! 7 = CHR ''-'' \<and> s ! 10 = CHR ''T''
         \<and> s ! 13 = CHR '':'' \<and> s ! 16 = CHR '':'' \<and> s ! 19 = CHR ''Z''
      then (case (read_nat (take 4 s), read_nat (take 2 (drop 5 s)), read_nat (take 2 (drop 8 s)),
                  read_nat (take 2 (drop 11 s)), read_nat (take 2 (drop 14 s)),
                  read_nat (take 2 (drop 17 s))) of
              (Some y, Some m, Some d, Some hh, Some mm, Some ss) \<Rightarrow>
                Some (days_from_civil y m d * 86400 + hh * 3600 + mm * 60 + ss)
            | _ \<Rightarrow> None)
      else None)"

text \<open>
  Two airports, the library of the scenarios, a record without reference data and a
  record with it, as \<^verbatim>\<open>read_raw_log\<close> builds them.
\<close>

definition sample_airports :: "string \<Rightarrow> string option" where
  "sample_airports = map_of [(''FACT'', ''Cape Town''), (''LFPG'', ''Paris'')]"

definition sample_lib :: pylib where
  "sample_lib = \<lparr>fmt_int = show_int, fmt_f5 = show_fixed 5, fmt_f0 = show_fixed 0,
                  fmt_e4 = show_exp4, strftime = show_datetime, to_int = read_int,
                  to_float = read_float, strptime = read_datetime,
                  date_of = (\<lambda>t. t div 86400), airports_city = sample_airports\<rparr>"

definition sample_plain :: log_data where
  "sample_plain = \<lparr>log_device_id = ''Safecast 2468'', log_flight_number = ''AF0871'',
      log_citizen_id = ''UNKNOWN'', log_origin = ''Cape Town'', log_destination = ''Paris'',
      log_origin_ICAO = ''FACT'', log_destination_ICAO = ''LFPG'', log_date = Some 19756,
      log_takeoff = Some 1706954400, log_landing = Some 1706954460, log_time_offset = ''120'', log_R2 = [],
      log_scaling_factor = 0, log_timestamps = ''original'', log_cnt_1mn = [31, 40], log_cnt_5sc = [2, 4],
      log_time = [1706954400, 1706954460], log_lat = [- 33971459 / 1000000, - 67 / 2],
      log_lon = [18602085 / 1000000, 37 / 2], log_alt = [1234 + 2 / 5, 10668], log_reference = None\<rparr>"

definition sample_reference :: log_data where
  "sample_reference = sample_plain\<lparr>log_R2 := ''0.9312'', log_scaling_factor := 12345678 / 100000000,
      log_reference := Some ([51234 / 10000, 3], [51234 / 1000000, 1])\<rparr>"

section \<open>Properties of \<^verbatim>\<open>fix_times\<close>\<close>

lemma length_np_diff: "length (np_diff ts) = length ts - 1"
  by (simp add: np_diff_def)

lemma nth_np_diff: "i + 1 < length ts \<Longrightarrow> np_diff ts ! i = ts ! (i + 1) - ts ! i"
  by (simp add: np_diff_def nth_butlast nth_tl)

text \<open>
  Claim C9.  When every consecutive delta satisfies \<open>0 < dt \<le> max_dt\<close>, \<^verbatim>\<open>fix_times\<close>
  raises nothing and returns the very object it was given, whatever \<open>delta\<close> is: the
  returned sequence is the input sequence.
\<close>

theorem fix_times_identity:
  assumes "\<forall>i. i + 1 < length ts \<longrightarrow> 0 < ts ! (i + 1) - ts ! i \<and> ts ! (i + 1) - ts ! i \<le> max_dt"
  shows "fix_times ts delta max_dt = Inr Same_Object \<and> returned_times ts Same_Object = ts"
proof -
  let ?times = "map (\<lambda>d. d - ts ! 0) ts"
  have "list_all id (map (\<lambda>d. 0 < d \<and> d \<le> max_dt) (np_diff ?times))"
    unfolding list_all_length
  proof (intro allI impI)
    fix i assume "i < length (map (\<lambda>d. 0 < d \<and> d \<le> max_dt) (np_diff ?times))"
    then have i: "i + 1 < length ts" by (simp add: length_np_diff)
    then have d: "np_diff ?times ! i = ts ! (i + 1) - ts ! i"
      by (simp add: nth_np_diff)
    from assms i have "0 < ts ! (i + 1) - ts ! i \<and> ts ! (i + 1) - ts ! i \<le> max_dt"
      by blast
    then have ok: "0 < np_diff ?times ! i \<and> np_diff ?times ! i \<le> max_dt"
      using d by simp
    from i have "i < length (np_diff ?times)"
      by (simp add: length_np_diff)
    then have "map (\<lambda>d. 0 < d \<and> d \<le> max_dt) (np_diff ?times) ! i
                 = (0 < np_diff ?times ! i \<and> np_diff ?times ! i \<le> max_dt)"
      by (rule nth_map)
    with ok show "id (map (\<lambda>d. 0 < d \<and> d \<le> max_dt) (np_diff ?times) ! i)"
      by simp
  qed
  then have "fix_times ts delta max_dt = Inr Same_Object"
    by (simp add: fix_times_def Let_def)
  then show ?thesis
    by (simp add: returned_times_def)
qed

theorem fix_times_identity_witness:
  "fix_times [1000, 1060, 1125] (-1) 1800 = Inr Same_Object
   \<and> returned_times [1000, 1060, 1125] Same_Object = [1000, 1060, 1125]"
proof -
  have "\<forall>i. i + 1 < length [1000, 1060, 1125 :: int] \<longrightarrow>
          0 < [1000, 1060, 1125 :: int] ! (i + 1) - [1000, 1060, 1125] ! i \<and>
          [1000, 1060, 1125 :: int] ! (i + 1) - [1000, 1060, 1125] ! i \<le> 1800"
    by (simp add: nth_Cons' less_Suc_eq)
  then show ?thesis by (rule fix_times_identity)
qed

text \<open>
  Claim C2, as stated: with the defaults, the offsets \<open>[0, 60, 60, 180, 240]\<close> would be
  repaired to \<open>[0, 60, 120, 180, 240]\<close>.  They are not: the result differs.
\<close>

theorem fix_times_duplicate_default_counterexample:
  "fix_times_default [0, 60, 60, 180, 240] \<noteq> Inr (New_Array [0, 60, 120, 180, 240])"
  by code_simp

text \<open>
  Claim C2, amended.  The deltas are \<open>[60, 0, 120, 60]\<close>.  Under the default
  \<open>max_dt = 1800\<close> the delta \<open>120\<close> is valid, so the loop never looks for an error to
  cancel against it: only the duplicate is replaced by the median \<open>60\<close>, and the result is
  \<open>[0, 60, 120, 240, 300]\<close>.  The deviation of the duplicate is folded into the later gap
  when that gap is itself invalid, for instance under \<open>max_dt = 100\<close>, and then the result
  is \<open>[0, 60, 120, 180, 240]\<close>.
\<close>

theorem fix_times_duplicate_scenario:
  "fix_times_default [0, 60, 60, 180, 240] = Inr (New_Array [0, 60, 120, 240, 300])
   \<and> fix_times [0, 60, 60, 180, 240] (-1) 100 = Inr (New_Array [0, 60, 120, 180, 240])"
  by code_simp

text \<open>
  Claim C5 says that, with \<open>delta\<close> not supplied, the repair completes whenever some delta is
  valid.  On \<open>[0, 0, 1850, 1850, 1910]\<close> the delta \<open>60\<close> is valid and is the median, yet the
  call raises \<^verbatim>\<open>IndexError\<close>: the delta \<open>1850\<close> consumes the only recorded error, and the
  duplicate that follows executes \<^verbatim>\<open>errors[-1] -= delta\<close> on the empty list.
\<close>

theorem fix_times_raises_with_valid_delta:
  "list_ex (\<lambda>d. 0 < d \<and> d \<le> 1800) (np_diff [0, 0, 1850, 1850, 1910])
   \<and> fix_times_default [0, 0, 1850, 1850, 1910] = Inl IndexError"
  by code_simp

text \<open>
  Claim C1 says that every returned sequence is strictly increasing.  On
  \<open>[0, 5, 11, 2011, 17]\<close> the valid deltas are \<open>5\<close> and \<open>6\<close>, the median is \<open>5.5\<close>, the
  delta \<open>2000\<close> leaves the error \<open>1994.5\<close>, and the delta \<open>-1994\<close> is corrected to \<open>0.5\<close>,
  which passes \<^verbatim>\<open>valid\<close> and is then truncated to \<open>0\<close> by the store into the integer
  array: the last two timestamps returned are equal.
\<close>

theorem fix_times_returns_repeated_timestamp:
  "fix_times_default [0, 5, 11, 2011, 17] = Inr (New_Array [0, 5, 11, 16, 16])
   \<and> \<not> sorted_wrt (<) (returned_times [0, 5, 11, 2011, 17] (New_Array [0, 5, 11, 16, 16]))"
  by code_simp

section \<open>Properties of \<^verbatim>\<open>unravel_lon\<close> and \<^verbatim>\<open>ravel_lon\<close>\<close>

lemma wrap_down_cong: "\<exists>k::int. wrap_down prev x = x + 360 * of_int k"
proof (induction prev x rule: wrap_down.induct)
  case (1 prev x)
  show ?case
  proof (cases "x - prev > 180")
    case True
    with 1 obtain k :: int where "wrap_down prev (x - 360) = x - 360 + 360 * of_int k"
      by blast
    with True have "wrap_down prev x = x + 360 * of_int (k - 1)"
      by (simp add: algebra_simps)
    then show ?thesis by blast
  next
    case False
    then have "wrap_down prev x = x + 360 * of_int 0" by simp
    then show ?thesis by blast
  qed
qed

lemma wrap_up_cong: "\<exists>k::int. wrap_up prev x = x + 360 * of_int k"
proof (induction prev x rule: wrap_up.induct)
  case (1 prev x)
  show ?case
  proof (cases "x - prev < - 180")
    case True
    with 1 obtain k :: int where "wrap_up prev (x + 360) = x + 360 + 360 * of_int k"
      by blast
    with True have "wrap_up prev x = x + 360 * of_int (k + 1)"
      by (simp add: algebra_simps)
    then show ?thesis by blast
  next
    case False
    then have "wrap_up prev x = x + 360 * of_int 0" by simp
    then show ?thesis by blast
  qed
qed

lemma cong360_refl: "cong360 a a"
  unfolding cong360_def by (rule exI [of _ 0]) simp

lemma cong360_trans: "cong360 a b \<Longrightarrow> cong360 b c \<Longrightarrow> cong360 a c"
proof -
  assume "cong360 a b" "cong360 b c"
  then obtain k l :: int where "a = b + 360 * of_int k" "b = c + 360 * of_int l"
    unfolding cong360_def by blast
  then have "a = c + 360 * of_int (l + k)" by (simp add: algebra_simps)
  then show ?thesis unfolding cong360_def by blast
qed

lemma unravel_loop_length: "length (unravel_loop is u) = length u"
  by (induction "is" arbitrary: u) simp_all

lemma unravel_loop_cong:
  "j < length u \<Longrightarrow> cong360 (unravel_loop is u ! j) (u ! j)"
proof (induction "is" arbitrary: u)
  case Nil
  then show ?case by (simp add: cong360_refl)
next
  case (Cons i rest)
  let ?u = "u[i := wrap_up (u ! (i - 1)) (wrap_down (u ! (i - 1)) (u ! i))]"
  have step: "cong360 (?u ! j) (u ! j)"
  proof (cases "i = j")
    case True
    have "cong360 (wrap_up (u ! (i - 1)) (wrap_down (u ! (i - 1)) (u ! i))) (wrap_down (u ! (i - 1)) (u ! i))"
      unfolding cong360_def by (rule wrap_up_cong)
    moreover have "cong360 (wrap_down (u ! (i - 1)) (u ! i)) (u ! i)"
      unfolding cong360_def by (rule wrap_down_cong)
    ultimately have "cong360 (wrap_up (u ! (i - 1)) (wrap_down (u ! (i - 1)) (u ! i))) (u ! i)"
      by (rule cong360_trans)
    with True Cons.prems show ?thesis by simp
  next
    case False
    then show ?thesis by (simp add: cong360_refl)
  qed
  from Cons.prems have "j < length ?u" by simp
  then have "cong360 (unravel_loop rest ?u ! j) (?u ! j)" by (rule Cons.IH)
  then have "cong360 (unravel_loop rest ?u ! j) (u ! j)" using step by (rule cong360_trans)
  then show ?case by simp
qed

lemma py_mod_range: "0 < b \<Longrightarrow> 0 \<le> py_mod a b \<and> py_mod a b < b"
proof -
  assume b: "0 < b"
  define q where "q = \<lfloor>a / b\<rfloor>"
  have "of_int q \<le> a / b" unfolding q_def by (rule of_int_floor_le)
  then have l: "of_int q * b \<le> a" using b by (simp only: pos_le_divide_eq)
  have "a / b < of_int q + 1" unfolding q_def by linarith
  then have "a < (of_int q + 1) * b" using b by (simp only: pos_divide_less_eq)
  then have u: "a < of_int q * b + b" by (simp only: distrib_right mult_1)
  have "py_mod a b = a - of_int q * b" by (simp add: py_mod_def q_def mult.commute)
  with l u show ?thesis by simp
qed

text \<open>
  What does hold of the composition: every element is moved by whole turns, into the
  half-open interval that is closed below.
\<close>

lemma ravel_unravel_half_open:
  assumes "i < length x"
  shows "cong360 (ravel_lon (unravel_lon x) ! i) (x ! i)
         \<and> - 180 \<le> ravel_lon (unravel_lon x) ! i \<and> ravel_lon (unravel_lon x) ! i < 180"
proof -
  let ?u = "unravel_lon x"
  have len: "length ?u = length x" by (simp add: unravel_lon_def unravel_loop_length)
  have r: "ravel_lon ?u ! i = py_mod (?u ! i + 180) 360 - 180"
    using assms len by (simp add: ravel_lon_def)
  have "py_mod (?u ! i + 180) 360 - 180 = ?u ! i + 360 * of_int (- \<lfloor>(?u ! i + 180) / 360\<rfloor>)"
    by (simp add: py_mod_def)
  with r have "ravel_lon ?u ! i = ?u ! i + 360 * of_int (- \<lfloor>(?u ! i + 180) / 360\<rfloor>)"
    by (rule trans)
  then have "cong360 (ravel_lon ?u ! i) (?u ! i)"
    unfolding cong360_def by (rule exI)
  moreover have "cong360 (?u ! i) (x ! i)"
    unfolding unravel_lon_def using assms by (rule unravel_loop_cong)
  ultimately have c: "cong360 (ravel_lon ?u ! i) (x ! i)" by (rule cong360_trans)
  have "0 \<le> py_mod (?u ! i + 180) 360 \<and> py_mod (?u ! i + 180) 360 < 360"
    by (rule py_mod_range) simp
  then have "- 180 \<le> ravel_lon ?u ! i \<and> ravel_lon ?u ! i < 180"
    unfolding r by simp
  with c show ?thesis by (rule conjI)
qed


text \<open>
  Claim C8 places every element of \<^verbatim>\<open>ravel_lon(unravel_lon(x))\<close> in \<open>(-180, 180]\<close>, as the
  docstring of \<^verbatim>\<open>ravel_lon\<close> does.  The longitude \<open>180\<close> itself is sent to \<open>-180\<close>, which is
  outside that interval.
\<close>

theorem ravel_unravel_antimeridian:
  "ravel_lon (unravel_lon [180]) = [- 180]
   \<and> ravel_lon (unravel_lon [179, 180, - 179]) = [179, - 180, - 179]"
  by code_simp

section \<open>Properties of the scaling factor\<close>

lemma np_dot_commute: "np_dot a b = np_dot b a"
proof (induction a arbitrary: b)
  case Nil
  show ?case by (simp add: np_dot_def)
next
  case (Cons x a)
  then show ?case by (cases b) (simp_all add: np_dot_def mult.commute)
qed

lemma sum_squares_of_int:
  "(of_int (sum_list (map (\<lambda>c. c ^ 2) cs)) :: rat) = sum_list (map (\<lambda>r. r ^ 2) (map of_int cs))"
  by (induction cs) simp_all

lemma int64_in_range: "- (2 ^ 63) \<le> x \<Longrightarrow> x < 2 ^ 63 \<Longrightarrow> int64 x = x"
  by (simp add: int64_def)

lemma sum_squares_int_nonneg: "0 \<le> sum_list (map (\<lambda>c. c ^ 2) (cs :: int list))"
  by (induction cs) simp_all

text \<open>
  As long as the sum of the squares stays below \<open>2\<^sup>6\<^sup>3\<close>, nothing wraps.
\<close>

lemma sum_squares_int64_aux:
  "0 \<le> acc \<Longrightarrow> acc + sum_list (map (\<lambda>c. c ^ 2) cs) < 2 ^ 63 \<Longrightarrow>
     foldl (\<lambda>acc x. int64 (acc + x)) acc (map (\<lambda>c. int64 (c ^ 2)) cs)
       = acc + sum_list (map (\<lambda>c. c ^ 2) cs)"
proof (induction cs arbitrary: acc)
  case Nil
  show ?case by simp
next
  case (Cons c cs)
  define q where "q = c ^ 2"
  define rest where "rest = sum_list (map (\<lambda>c. c ^ 2) cs)"
  have q: "0 \<le> q" by (simp add: q_def)
  have rest: "0 \<le> rest" unfolding rest_def by (rule sum_squares_int_nonneg)
  from Cons.prems(2) have below: "acc + (q + rest) < 2 ^ 63" by (simp add: q_def rest_def)
  from Cons.prems(1) q rest below have sq: "int64 q = q"
    by (intro int64_in_range) linarith+
  from Cons.prems(1) q rest below have ac: "int64 (acc + q) = acc + q"
    by (intro int64_in_range) linarith+
  have "foldl (\<lambda>acc x. int64 (acc + x)) acc (map (\<lambda>c. int64 (c ^ 2)) (c # cs))
          = foldl (\<lambda>acc x. int64 (acc + x)) (acc + q) (map (\<lambda>c. int64 (c ^ 2)) cs)"
    using sq ac by (simp add: q_def)
  also have "\<dots> = acc + q + sum_list (map (\<lambda>c. c ^ 2) cs)"
  proof (rule Cons.IH)
    show "0 \<le> acc + q" using Cons.prems(1) q by simp
    show "acc + q + sum_list (map (\<lambda>c. c ^ 2) cs) < 2 ^ 63"
      using below by (simp add: rest_def)
  qed
  finally show ?case by (simp add: q_def)
qed

lemma sum_squares_int64:
  "sum_list (map (\<lambda>c. c ^ 2) cs) < 2 ^ 63 \<Longrightarrow>
     np_sum_int64 (map (\<lambda>c. int64 (c ^ 2)) cs) = sum_list (map (\<lambda>c. c ^ 2) cs)"
  using sum_squares_int64_aux [of 0 cs] by (simp add: np_sum_int64_def)

lemma scaling_factor_slope:
  assumes "length cnt_1mn = length total_neutron"
    and "sum_list (map (\<lambda>c. c ^ 2) cnt_1mn) < 2 ^ 63"
  shows "scaling_factor cnt_1mn total_neutron
           = Inr (np_true_divide (np_dot (map of_int cnt_1mn) total_neutron)
                    (sum_list (map (\<lambda>c. c ^ 2) (map of_int cnt_1mn))))"
    and "scaling_factor cnt_1mn total_neutron = Inr (beta_hat total_neutron (map of_int cnt_1mn))"
proof -
  show 1: "scaling_factor cnt_1mn total_neutron
           = Inr (np_true_divide (np_dot (map of_int cnt_1mn) total_neutron)
                    (sum_list (map (\<lambda>c. c ^ 2) (map of_int cnt_1mn))))"
    using assms(1)
    by (simp add: scaling_factor_def np_mul_def np_dot_def sum_squares_int64 [OF assms(2)]
          sum_squares_of_int)
  show "scaling_factor cnt_1mn total_neutron = Inr (beta_hat total_neutron (map of_int cnt_1mn))"
    unfolding 1 beta_hat_def by (simp only: np_dot_commute [of total_neutron])
qed

text \<open>
  Claim C7, as stated: with reference data the stored scaling factor would be the slope \<open>\<beta>\<close>
  of ReferenceAligner with the counts as measurement \<open>m\<close> and the dose as reference \<open>r\<close>,
  \<open>\<Sigma>(m\<cdot>r)/\<Sigma>(r\<^sup>2)\<close>.  Two samples with count \<open>1\<close> under a reference dose of \<open>2\<close> are
  merged with the factor \<open>2\<close>, and that slope is \<open>1/2\<close>.  The divisor of the source is the sum
  of the squared counts, computed in \<^verbatim>\<open>int64\<close>: for one sample with count \<open>4000000000\<close>
  it wraps to a negative number, and the factor stored is negative.
\<close>

theorem scaling_factor_counterexample:
  "read_raw_log_merge (\<lambda>xp fp. lin_interp1 (zip xp fp)) [7, 1, 1, 7] [0, 60, 120, 180] 1 2
       [1000, 1060] 1000 (Some [2, 2])
     = Inr \<lparr>m_cnt_1mn = [1, 1], m_time = [1000, 1060], m_total_neutron = Some [2, 2],
            m_scaling_factor = Some 2\<rparr>
   \<and> beta_hat (map of_int [1, 1]) [2, 2] = Some (1 / 2)
   \<and> scaling_factor [4000000000] [2] = Inr (Some (- (1953125 / 597349627370496)))
   \<and> np_true_divide (np_dot (map of_int [4000000000 :: int]) [2])
        (sum_list (map (\<lambda>c. c ^ 2) (map of_int [4000000000 :: int]))) = Some (1 / 2000000000)"
  by code_simp

text \<open>
  Claim C7, amended.  Let the merge of \<^verbatim>\<open>read_raw_log\<close> return a record when reference data
  is present, for device arrays of one length.  The counts of the record are the whole
  finalized window \<^verbatim>\<open>[device_takeoff_idx : device_landing_idx + 1]\<close>, its dose \<open>r\<close> is the
  reference interpolated at the times of that window, and, as long as the sum of the
  squared counts is below \<open>2\<^sup>6\<^sup>3\<close>, the stored scaling factor is \<open>\<Sigma>(c\<cdot>r)/\<Sigma>(c\<^sup>2)\<close> over that
  window: the zero-intercept slope of the dose against the counts, the formula of \<open>\<beta>\<close> with
  the two roles exchanged.
\<close>

theorem scaling_factor_is_slope_of_dose_on_counts:
  assumes merged: "read_raw_log_merge np_interp device_cnt_1mn device_time device_takeoff_idx
                     device_landing_idx flight_time takeoff (Some reference) = Inr data"
    and lengths: "length device_cnt_1mn = length device_time"
    and bound: "sum_list (map (\<lambda>c. c ^ 2) (m_cnt_1mn data)) < 2 ^ 63"
  shows "m_cnt_1mn data = py_slice device_cnt_1mn device_takeoff_idx (device_landing_idx + 1)
         \<and> (\<exists>r. m_total_neutron data = Some r \<and> length r = length (m_cnt_1mn data)
                \<and> r = map (np_interp (map (\<lambda>d. of_int (d - takeoff)) flight_time) reference)
                         (map (\<lambda>d. of_int (d - takeoff)) (m_time data))
                \<and> m_scaling_factor data
                    = np_true_divide (np_dot (map of_int (m_cnt_1mn data)) r)
                        (sum_list (map (\<lambda>c. c ^ 2) (map of_int (m_cnt_1mn data))))
                \<and> m_scaling_factor data = beta_hat r (map of_int (m_cnt_1mn data)))"
proof -
  let ?cnt = "py_slice device_cnt_1mn device_takeoff_idx (device_landing_idx + 1)"
  let ?ts = "py_slice device_time device_takeoff_idx (device_landing_idx + 1)"
  let ?dt = "map (\<lambda>t. t - ?ts ! 0 + takeoff) ?ts"
  let ?tn = "map (np_interp (map (\<lambda>d. of_int (d - takeoff)) flight_time) reference)
               (map (\<lambda>d. of_int (d - takeoff)) ?dt)"
  from merged obtain factor where sf: "scaling_factor ?cnt ?tn = Inr factor"
    and data: "data = \<lparr>m_cnt_1mn = ?cnt, m_time = ?dt, m_total_neutron = Some ?tn,
                        m_scaling_factor = factor\<rparr>"
    unfolding read_raw_log_merge_def Let_def
    by (auto split: if_splits sum.splits)
  have len: "length ?cnt = length ?tn"
    using lengths by (simp add: py_slice_def)
  from bound data have b: "sum_list (map (\<lambda>c. c ^ 2) ?cnt) < 2 ^ 63" by simp
  from scaling_factor_slope [OF len b] sf
  have f1: "factor = np_true_divide (np_dot (map of_int ?cnt) ?tn)
                       (sum_list (map (\<lambda>c. c ^ 2) (map of_int ?cnt)))"
    and f2: "factor = beta_hat ?tn (map of_int ?cnt)"
    by simp_all
  show ?thesis
    unfolding data using len f1 f2 by simp
qed

theorem scaling_factor_is_slope_of_dose_on_counts_witness:
  "read_raw_log_merge (\<lambda>xp fp. lin_interp1 (zip xp fp)) [7, 1, 2, 7] [0, 60, 120, 180] 1 2
       [1000, 1060] 1000 (Some [2, 4])
     = Inr \<lparr>m_cnt_1mn = [1, 2], m_time = [1000, 1060], m_total_neutron = Some [2, 4],
            m_scaling_factor = Some 2\<rparr>
   \<and> py_slice [7, 1, 2, 7 :: int] 1 (2 + 1) = [1, 2]
   \<and> np_true_divide (np_dot (map of_int [1, 2 :: int]) [2, 4])
        (sum_list (map (\<lambda>c. c ^ 2) (map of_int [1, 2 :: int]))) = Some 2
   \<and> beta_hat [2, 4] (map of_int [1, 2 :: int]) = Some 2"
proof -
  let ?I = "\<lambda>xp fp. lin_interp1 (zip xp fp)"
  let ?D = "\<lparr>m_cnt_1mn = [1, 2], m_time = [1000, 1060], m_total_neutron = Some [2, 4],
             m_scaling_factor = Some 2\<rparr>"
  have h1: "read_raw_log_merge ?I [7, 1, 2, 7] [0, 60, 120, 180] 1 2 [1000, 1060] 1000 (Some [2, 4])
              = Inr ?D"
    by code_simp
  have h2: "length [7, 1, 2, 7 :: int] = length [0, 60, 120, 180 :: int]" by simp
  have h3: "sum_list (map (\<lambda>c. c ^ 2) (m_cnt_1mn ?D)) < 2 ^ 63" by simp
  from scaling_factor_is_slope_of_dose_on_counts [OF h1 h2 h3] h1 show ?thesis
    by (auto simp: py_slice_def)
qed

section \<open>Properties of the scan of \<^verbatim>\<open>estimate_takeoff\<close>\<close>

lemma est_step_best:
  assumes "est_step cumsum time flight_duration sz st = Inr st'"
  shows "(case est_candidate cumsum time flight_duration sz st of
            Some (a, b, s) \<Rightarrow>
              if s \<ge> max_sum st
              then takeoff_idx st' = a \<and> landing_idx st' = b \<and> max_sum st' = s
              else takeoff_idx st' = takeoff_idx st \<and> landing_idx st' = landing_idx st
                   \<and> max_sum st' = max_sum st
          | None \<Rightarrow> takeoff_idx st' = takeoff_idx st \<and> landing_idx st' = landing_idx st
                   \<and> max_sum st' = max_sum st)"
  using assms unfolding est_step_def est_candidate_def
  by (auto split: sum.splits option.splits if_splits prod.splits simp: Let_def)

lemma est_iter_add:
  "est_iter cumsum time flight_duration sz (k + i) st =
     (case est_iter cumsum time flight_duration sz k st of
        None \<Rightarrow> None
      | Some s \<Rightarrow> est_iter cumsum time flight_duration sz i s)"
proof (induction k arbitrary: st)
  case 0
  show ?case by simp
next
  case (Suc k)
  show ?case
  proof (cases "est_step cumsum time flight_duration sz st")
    case (Inl e)
    then show ?thesis by simp
  next
    case (Inr st')
    then show ?thesis using Suc.IH [of st'] by simp
  qed
qed

lemma est_iter_SucD:
  assumes "est_iter cumsum time flight_duration sz (Suc k) st0 = Some st"
  obtains sk where "est_iter cumsum time flight_duration sz k st0 = Some sk"
    and "window_stop sk \<noteq> sz - 1"
    and "est_step cumsum time flight_duration sz sk = Inr st"
proof -
  have "est_iter cumsum time flight_duration sz (k + 1) st0 =
     (case est_iter cumsum time flight_duration sz k st0 of
        None \<Rightarrow> None
      | Some s \<Rightarrow> est_iter cumsum time flight_duration sz 1 s)"
    by (rule est_iter_add)
  with assms obtain sk where sk: "est_iter cumsum time flight_duration sz k st0 = Some sk"
    and one: "est_iter cumsum time flight_duration sz 1 sk = Some st"
    by (cases "est_iter cumsum time flight_duration sz k st0") auto
  have "est_iter cumsum time flight_duration sz 1 sk =
          (if window_stop sk = sz - 1 then None
           else case est_step cumsum time flight_duration sz sk of
                  Inl e \<Rightarrow> None
                | Inr st' \<Rightarrow> Some st')"
    unfolding One_nat_def by (simp split: sum.splits)
  with one have nx: "window_stop sk \<noteq> sz - 1"
    and stp: "est_step cumsum time flight_duration sz sk = Inr st"
    by (auto split: if_splits sum.splits)
  from sk nx stp show thesis by (rule that)
qed

lemma est_iter_after_exit:
  assumes "est_iter cumsum time flight_duration sz k st0 = Some sk" and "window_stop sk = sz - 1"
    and "k < j"
  shows "est_iter cumsum time flight_duration sz j st0 = None"
proof -
  from \<open>k < j\<close> have "j = k + Suc (j - Suc k)" by simp
  then obtain d where j: "j = k + Suc d" ..
  have stop: "est_iter cumsum time flight_duration sz (Suc d) sk = None"
    using assms(2) by simp
  have "est_iter cumsum time flight_duration sz (k + Suc d) st0
          = est_iter cumsum time flight_duration sz (Suc d) sk"
    by (simp only: est_iter_add assms(1) option.case)
  with stop show ?thesis unfolding j by (simp only:)
qed

lemma est_window_after_exit:
  assumes "est_iter cumsum time flight_duration sz k st0 = Some sk" and "window_stop sk = sz - 1"
    and "k \<le> j"
  shows "est_window cumsum time flight_duration sz st0 j = None"
proof (cases "j = k")
  case True
  with assms show ?thesis by (simp add: est_window_def)
next
  case False
  with assms(3) have "k < j" by simp
  with assms(1,2) have "est_iter cumsum time flight_duration sz j st0 = None"
    by (rule est_iter_after_exit)
  then show ?thesis by (simp add: est_window_def)
qed

lemma estimate_loop_iter_aux:
  assumes "estimate_loop cumsum time flight_duration sz st = Some y"
  shows "est_returns cumsum time flight_duration sz st y"
proof (rule estimate_loop.raw_induct [where P = est_returns, OF _ assms])
  fix loop c t f n s y'
  assume IH: "\<And>t f n s b y. loop t f n s b = Some y \<Longrightarrow> est_returns t f n s b y"
    and body: "(if window_stop s = n - 1 then Some (Inr (takeoff_idx s, landing_idx s))
                else case est_step c t f n s of
                       Inl e \<Rightarrow> Some (Inl e)
                     | Inr st' \<Rightarrow> loop c t f n st') = Some y'"
  show "est_returns c t f n s y'"
    unfolding est_returns_def
  proof (intro allI impI)
    fix r assume y: "y' = Inr r"
    show "\<exists>k st'. est_iter c t f n k s = Some st'
           \<and> window_stop st' = n - 1 \<and> r = (takeoff_idx st', landing_idx st')"
    proof (cases "window_stop s = n - 1")
      case True
      with body y have "r = (takeoff_idx s, landing_idx s)" by simp
      with True have "est_iter c t f n 0 s = Some s
             \<and> window_stop s = n - 1 \<and> r = (takeoff_idx s, landing_idx s)" by simp
      then show ?thesis by blast
    next
      case False
      with body y obtain st' where s: "est_step c t f n s = Inr st'"
        and l: "loop c t f n st' = Some (Inr r)"
        by (auto split: sum.splits)
      from IH [OF l] obtain k st'' where
        "est_iter c t f n k st' = Some st''"
        "window_stop st'' = n - 1" "r = (takeoff_idx st'', landing_idx st'')"
        unfolding est_returns_def by blast
      with s False have "est_iter c t f n (Suc k) s = Some st''
         \<and> window_stop st'' = n - 1 \<and> r = (takeoff_idx st'', landing_idx st'')" by simp
      then show ?thesis by blast
    qed
  qed
qed

lemma estimate_loop_iter:
  assumes "estimate_loop cumsum time flight_duration sz st = Some (Inr r)"
  shows "\<exists>k st'. est_iter cumsum time flight_duration sz k st = Some st'
           \<and> window_stop st' = sz - 1 \<and> r = (takeoff_idx st', landing_idx st')"
  using estimate_loop_iter_aux [OF assms] unfolding est_returns_def by blast

lemma est_invariant:
  assumes "est_iter cumsum time flight_duration sz k st0 = Some st"
  shows "(takeoff_idx st = takeoff_idx st0 \<and> landing_idx st = landing_idx st0
            \<and> max_sum st = max_sum st0
            \<and> (\<forall>j<k. \<forall>a b s. est_window cumsum time flight_duration sz st0 j = Some (a, b, s)
                   \<longrightarrow> s < max_sum st0))
         \<or> (\<exists>m<k. est_window cumsum time flight_duration sz st0 m
                      = Some (takeoff_idx st, landing_idx st, max_sum st)
                \<and> (\<forall>j<k. \<forall>a b s. est_window cumsum time flight_duration sz st0 j = Some (a, b, s)
                       \<longrightarrow> s \<le> max_sum st \<and> (s = max_sum st \<longrightarrow> j \<le> m)))"
  using assms
proof (induction k arbitrary: st)
  case 0
  then show ?case by simp
next
  case (Suc k)
  from Suc.prems obtain sk where sk: "est_iter cumsum time flight_duration sz k st0 = Some sk"
    and nx: "window_stop sk \<noteq> sz - 1"
    and step: "est_step cumsum time flight_duration sz sk = Inr st"
    by (rule est_iter_SucD)
  have wk: "est_window cumsum time flight_duration sz st0 k
              = est_candidate cumsum time flight_duration sz sk"
    using nx by (simp add: est_window_def sk)
  note IH = Suc.IH [OF sk]
  note best = est_step_best [OF step]
  let ?W = "est_window cumsum time flight_duration sz st0"
  show ?case
  proof (cases "\<exists>a b s. ?W k = Some (a, b, s) \<and> max_sum sk \<le> s")
    case True
    then obtain a b s where c: "?W k = Some (a, b, s)" and ge: "max_sum sk \<le> s" by blast
    from c wk have cand: "est_candidate cumsum time flight_duration sz sk = Some (a, b, s)"
      by simp
    from best ge have new: "takeoff_idx st = a" "landing_idx st = b" "max_sum st = s"
      unfolding cand by simp_all
    have "\<forall>j<Suc k. \<forall>a' b' s'. ?W j = Some (a', b', s')
            \<longrightarrow> s' \<le> max_sum st \<and> (s' = max_sum st \<longrightarrow> j \<le> k)"
    proof (intro allI impI)
      fix j a' b' s' assume j: "j < Suc k" and w: "?W j = Some (a', b', s')"
      show "s' \<le> max_sum st \<and> (s' = max_sum st \<longrightarrow> j \<le> k)"
      proof (cases "j = k")
        case True
        with w c new show ?thesis by simp
      next
        case False
        with j have jk: "j < k" by simp
        from IH have "s' \<le> max_sum sk"
        proof
          assume "takeoff_idx sk = takeoff_idx st0 \<and> landing_idx sk = landing_idx st0
            \<and> max_sum sk = max_sum st0
            \<and> (\<forall>j<k. \<forall>a b s. ?W j = Some (a, b, s) \<longrightarrow> s < max_sum st0)"
          with jk w show ?thesis by fastforce
        next
          assume "\<exists>m<k. ?W m = Some (takeoff_idx sk, landing_idx sk, max_sum sk)
                \<and> (\<forall>j<k. \<forall>a b s. ?W j = Some (a, b, s)
                       \<longrightarrow> s \<le> max_sum sk \<and> (s = max_sum sk \<longrightarrow> j \<le> m))"
          with jk w show ?thesis by blast
        qed
        with ge new jk show ?thesis by simp
      qed
    qed
    with c new have "\<exists>m<Suc k. ?W m = Some (takeoff_idx st, landing_idx st, max_sum st)
                \<and> (\<forall>j<Suc k. \<forall>a b s. ?W j = Some (a, b, s)
                       \<longrightarrow> s \<le> max_sum st \<and> (s = max_sum st \<longrightarrow> j \<le> m))"
      by (intro exI [of _ k]) simp
    then show ?thesis by (rule disjI2)
  next
    case False
    from False wk have "est_candidate cumsum time flight_duration sz sk = None
        \<or> (\<exists>a b s. est_candidate cumsum time flight_duration sz sk = Some (a, b, s)
             \<and> \<not> max_sum sk \<le> s)"
      by (cases "est_candidate cumsum time flight_duration sz sk") auto
    with best have same: "takeoff_idx st = takeoff_idx sk" "landing_idx st = landing_idx sk"
      "max_sum st = max_sum sk"
      by auto
    from False have lastk: "\<And>a b s. ?W k = Some (a, b, s) \<Longrightarrow> s < max_sum sk"
      by force
    from IH show ?thesis
    proof
      assume old: "takeoff_idx sk = takeoff_idx st0 \<and> landing_idx sk = landing_idx st0
            \<and> max_sum sk = max_sum st0
            \<and> (\<forall>j<k. \<forall>a b s. ?W j = Some (a, b, s) \<longrightarrow> s < max_sum st0)"
      have "\<forall>j<Suc k. \<forall>a b s. ?W j = Some (a, b, s) \<longrightarrow> s < max_sum st0"
      proof (intro allI impI)
        fix j a b s assume "j < Suc k" and w: "?W j = Some (a, b, s)"
        then consider "j = k" | "j < k" by linarith
        then show "s < max_sum st0"
        proof cases
          case 1
          with w lastk old show ?thesis by simp
        next
          case 2
          with w old show ?thesis by blast
        qed
      qed
      with same old show ?thesis by simp
    next
      assume "\<exists>m<k. ?W m = Some (takeoff_idx sk, landing_idx sk, max_sum sk)
                \<and> (\<forall>j<k. \<forall>a b s. ?W j = Some (a, b, s)
                       \<longrightarrow> s \<le> max_sum sk \<and> (s = max_sum sk \<longrightarrow> j \<le> m))"
      then obtain m where m: "m < k"
        and wm: "?W m = Some (takeoff_idx sk, landing_idx sk, max_sum sk)"
        and all: "\<forall>j<k. \<forall>a b s. ?W j = Some (a, b, s)
                       \<longrightarrow> s \<le> max_sum sk \<and> (s = max_sum sk \<longrightarrow> j \<le> m)"
        by blast
      have "\<forall>j<Suc k. \<forall>a b s. ?W j = Some (a, b, s)
                       \<longrightarrow> s \<le> max_sum st \<and> (s = max_sum st \<longrightarrow> j \<le> m)"
      proof (intro allI impI)
        fix j a b s assume "j < Suc k" and w: "?W j = Some (a, b, s)"
        then consider "j = k" | "j < k" by linarith
        then show "s \<le> max_sum st \<and> (s = max_sum st \<longrightarrow> j \<le> m)"
        proof cases
          case 1
          with w lastk same show ?thesis by force
        next
          case 2
          with w all same show ?thesis by simp
        qed
      qed
      with m wm same have "\<exists>m<Suc k. ?W m = Some (takeoff_idx st, landing_idx st, max_sum st)
                \<and> (\<forall>j<Suc k. \<forall>a b s. ?W j = Some (a, b, s)
                       \<longrightarrow> s \<le> max_sum st \<and> (s = max_sum st \<longrightarrow> j \<le> m))"
        by (intro exI [of _ m]) simp
      then show ?thesis by (rule disjI2)
    qed
  qed
qed

lemma estimate_takeoff_last_maximal:
  assumes "estimate_takeoff cnt_5sc time flight_duration max_diff = Some (Inr (tk, ld))"
  shows "(tk = 0 \<and> ld = length cnt_5sc - 1
            \<and> (\<forall>j a b s. est_examined cnt_5sc time flight_duration max_diff j = Some (a, b, s)
                  \<longrightarrow> s < 0))
         \<or> (\<exists>m M. est_examined cnt_5sc time flight_duration max_diff m = Some (tk, ld, M)
                \<and> (\<forall>j a b s. est_examined cnt_5sc time flight_duration max_diff j = Some (a, b, s)
                       \<longrightarrow> s \<le> M \<and> (s = M \<longrightarrow> j \<le> m)))"
proof -
  let ?cs = "est_cumsum cnt_5sc max_diff" and ?n = "length cnt_5sc"
  let ?W = "est_window ?cs time flight_duration ?n (est_init ?n)"
  from assms have "estimate_loop ?cs time flight_duration ?n (est_init ?n) = Some (Inr (tk, ld))"
    by (auto simp: estimate_takeoff_def Let_def split: if_splits)
  then obtain k st where it: "est_iter ?cs time flight_duration ?n k (est_init ?n) = Some st"
    and ex: "window_stop st = ?n - 1" and r: "tk = takeoff_idx st" "ld = landing_idx st"
    using estimate_loop_iter by blast
  have late: "\<And>j. k \<le> j \<Longrightarrow> ?W j = None"
    using it ex by (rule est_window_after_exit)
  from est_invariant [OF it] show ?thesis
  proof
    assume a: "takeoff_idx st = takeoff_idx (est_init ?n) \<and> landing_idx st = landing_idx (est_init ?n)
            \<and> max_sum st = max_sum (est_init ?n)
            \<and> (\<forall>j<k. \<forall>a b s. ?W j = Some (a, b, s) \<longrightarrow> s < max_sum (est_init ?n))"
    have "\<forall>j a b s. ?W j = Some (a, b, s) \<longrightarrow> s < 0"
    proof (intro allI impI)
      fix j a' b' s assume w: "?W j = Some (a', b', s)"
      with late have "j < k" by (cases "j < k") auto
      with a w show "s < 0" by (auto simp: est_init_def)
    qed
    with a r show ?thesis by (simp add: est_init_def est_examined_def)
  next
    assume "\<exists>m<k. ?W m = Some (takeoff_idx st, landing_idx st, max_sum st)
                \<and> (\<forall>j<k. \<forall>a b s. ?W j = Some (a, b, s)
                       \<longrightarrow> s \<le> max_sum st \<and> (s = max_sum st \<longrightarrow> j \<le> m))"
    then obtain m where wm: "?W m = Some (takeoff_idx st, landing_idx st, max_sum st)"
      and all: "\<forall>j<k. \<forall>a b s. ?W j = Some (a, b, s)
                       \<longrightarrow> s \<le> max_sum st \<and> (s = max_sum st \<longrightarrow> j \<le> m)" by blast
    have "\<forall>j a b s. ?W j = Some (a, b, s) \<longrightarrow> s \<le> max_sum st \<and> (s = max_sum st \<longrightarrow> j \<le> m)"
    proof (intro allI impI)
      fix j a' b' s assume w: "?W j = Some (a', b', s)"
      with late have "j < k" by (cases "j < k") auto
      with all w show "s \<le> max_sum st \<and> (s = max_sum st \<longrightarrow> j \<le> m)" by blast
    qed
    with wm r have "\<exists>m M. est_examined cnt_5sc time flight_duration max_diff m = Some (tk, ld, M)
                \<and> (\<forall>j a b s. est_examined cnt_5sc time flight_duration max_diff j = Some (a, b, s)
                       \<longrightarrow> s \<le> M \<and> (s = M \<longrightarrow> j \<le> m))"
      unfolding est_examined_def by blast
    then show ?thesis by (rule disjI2)
  qed
qed

lemma est_stuck_step:
  assumes "est_stuck sz st"
  shows "\<exists>st'. est_step cumsum time flight_duration sz st = Inr st' \<and> est_stuck sz st'"
proof -
  from assms obtain d where d: "dt st = Some d" "d \<le> 0"
    by (auto simp: est_stuck_def split: option.splits)
  from assms have "sz \<le> Suc (window_stop st)" by (simp add: est_stuck_def)
  then have "est_step cumsum time flight_duration sz st
               = Inr (st\<lparr>window_start := window_start st + 1,
                        window_stop := window_start st + 1 + 1, dt := Some d\<rparr>)"
    using d by (simp add: est_step_def)
  moreover have "est_stuck sz (st\<lparr>window_start := window_start st + 1,
                        window_stop := window_start st + 1 + 1, dt := Some d\<rparr>)"
    using assms d by (simp add: est_stuck_def)
  ultimately show ?thesis by blast
qed

lemma est_stuck_never_returns:
  assumes "estimate_loop cumsum time flight_duration sz st = Some y"
  shows "\<not> est_stuck sz st"
proof (rule estimate_loop.raw_induct [where P = "\<lambda>c t f n s y. \<not> est_stuck n s", OF _ assms])
  fix loop c t f n s y'
  assume IH: "\<And>t f n s b y. loop t f n s b = Some y \<Longrightarrow> \<not> est_stuck s b"
    and body: "(if window_stop s = n - 1 then Some (Inr (takeoff_idx s, landing_idx s))
                else case est_step c t f n s of
                       Inl e \<Rightarrow> Some (Inl e)
                     | Inr st' \<Rightarrow> loop c t f n st') = Some y'"
  show "\<not> est_stuck n s"
  proof
    assume stuck: "est_stuck n s"
    then have ne: "window_stop s \<noteq> n - 1" by (auto simp: est_stuck_def)
    from est_stuck_step [OF stuck] obtain st' where
      st': "est_step c t f n s = Inr st'" "est_stuck n st'" by blast
    with body ne have "loop c t f n st' = Some y'" by simp
    then have "\<not> est_stuck n st'" by (rule IH)
    with st' show False by simp
  qed
qed

lemma est_stuck_diverges:
  "est_stuck sz st \<Longrightarrow> estimate_loop cumsum time flight_duration sz st = None"
  using est_stuck_never_returns [of cumsum time flight_duration sz st]
  by (cases "estimate_loop cumsum time flight_duration sz st") auto

lemma estimate_loop_unroll:
  "est_iter cumsum time flight_duration sz k st = Some sk \<Longrightarrow>
     estimate_loop cumsum time flight_duration sz st = estimate_loop cumsum time flight_duration sz sk"
proof (induction k arbitrary: st)
  case 0
  then show ?case by simp
next
  case (Suc k)
  from Suc.prems obtain st' where ne: "window_stop st \<noteq> sz - 1"
    and s: "est_step cumsum time flight_duration sz st = Inr st'"
    and it: "est_iter cumsum time flight_duration sz k st' = Some sk"
    by (auto split: if_splits sum.splits)
  have "estimate_loop cumsum time flight_duration sz st
          = estimate_loop cumsum time flight_duration sz st'"
    using ne by (subst estimate_loop.simps) (simp add: s)
  also have "\<dots> = estimate_loop cumsum time flight_duration sz sk"
    using it by (rule Suc.IH)
  finally show ?case .
qed

lemma estimate_loop_diverges:
  assumes "case est_iter cumsum time flight_duration sz k st of
             None \<Rightarrow> False | Some sk \<Rightarrow> est_stuck sz sk"
  shows "estimate_loop cumsum time flight_duration sz st = None"
proof -
  from assms obtain sk where it: "est_iter cumsum time flight_duration sz k st = Some sk"
    and stuck: "est_stuck sz sk" by (auto split: option.splits)
  from it have "estimate_loop cumsum time flight_duration sz st
                  = estimate_loop cumsum time flight_duration sz sk"
    by (rule estimate_loop_unroll)
  with stuck show ?thesis by (simp add: est_stuck_diverges)
qed

lemma est_iter_start:
  "est_iter cumsum time flight_duration sz k st = Some sk \<Longrightarrow> window_start sk = window_start st + k"
proof (induction k arbitrary: st)
  case 0
  then show ?case by simp
next
  case (Suc k)
  from Suc.prems obtain st' where s: "est_step cumsum time flight_duration sz st = Inr st'"
    and it: "est_iter cumsum time flight_duration sz k st' = Some sk"
    by (auto split: if_splits sum.splits)
  from s have "window_start st' = window_start st + 1"
    unfolding est_step_def by (auto split: sum.splits option.splits if_splits prod.splits simp: Let_def)
  with Suc.IH [OF it] show ?case by simp
qed

lemma est_examined_start:
  assumes "est_examined cnt_5sc time flight_duration max_diff j = Some (a, b, s)"
  shows "a = j"
proof -
  from assms obtain sj where
    it: "est_iter (est_cumsum cnt_5sc max_diff) time flight_duration (length cnt_5sc) j
           (est_init (length cnt_5sc)) = Some sj"
    and c: "est_candidate (est_cumsum cnt_5sc max_diff) time flight_duration (length cnt_5sc) sj
              = Some (a, b, s)"
    unfolding est_examined_def est_window_def by (auto split: option.splits if_splits)
  from c have "a = window_start sj"
    unfolding est_candidate_def by (auto split: sum.splits option.splits if_splits prod.splits)
  with est_iter_start [OF it] show ?thesis by (simp add: est_init_def)
qed

section \<open>Properties of the scan of \<^verbatim>\<open>align_time\<close>\<close>

lemma align_step_best:
  assumes "align_step interp cnt_1mn time flight_duration sz st = Inr st'"
  shows "(case align_candidate interp cnt_1mn time flight_duration sz st of
            Some (a, b, R) \<Rightarrow>
              if R > max_R2 st
              then a_takeoff_idx st' = a + 1 \<and> a_landing_idx st' = b \<and> max_R2 st' = R
              else a_takeoff_idx st' = a_takeoff_idx st \<and> a_landing_idx st' = a_landing_idx st
                   \<and> max_R2 st' = max_R2 st
          | None \<Rightarrow> a_takeoff_idx st' = a_takeoff_idx st \<and> a_landing_idx st' = a_landing_idx st
                   \<and> max_R2 st' = max_R2 st)"
  using assms unfolding align_step_def align_candidate_def
  by (auto split: sum.splits option.splits if_splits prod.splits simp: Let_def)

lemma align_candidate_fit:
  assumes "align_candidate interp cnt_1mn time flight_duration sz st = Some (a, b, R)"
  shows "fit_R2 (window_measurement cnt_1mn a b) (interp (window_times time a b)) = Some R"
  using assms unfolding align_candidate_def
  by (auto split: sum.splits if_splits)

lemma align_iter_add:
  "align_iter interp cnt_1mn time flight_duration sz (k + i) st =
     (case align_iter interp cnt_1mn time flight_duration sz k st of
        None \<Rightarrow> None
      | Some s \<Rightarrow> align_iter interp cnt_1mn time flight_duration sz i s)"
proof (induction k arbitrary: st)
  case 0
  show ?case by simp
next
  case (Suc k)
  show ?case
  proof (cases "align_step interp cnt_1mn time flight_duration sz st")
    case (Inl e)
    then show ?thesis by simp
  next
    case (Inr st')
    then show ?thesis using Suc.IH [of st'] by simp
  qed
qed

lemma align_iter_SucD:
  assumes "align_iter interp cnt_1mn time flight_duration sz (Suc k) st0 = Some st"
  obtains sk where "align_iter interp cnt_1mn time flight_duration sz k st0 = Some sk"
    and "a_window_end sk \<noteq> sz - 1"
    and "align_step interp cnt_1mn time flight_duration sz sk = Inr st"
proof -
  have "align_iter interp cnt_1mn time flight_duration sz (k + 1) st0 =
     (case align_iter interp cnt_1mn time flight_duration sz k st0 of
        None \<Rightarrow> None
      | Some s \<Rightarrow> align_iter interp cnt_1mn time flight_duration sz 1 s)"
    by (rule align_iter_add)
  with assms obtain sk where sk: "align_iter interp cnt_1mn time flight_duration sz k st0 = Some sk"
    and one: "align_iter interp cnt_1mn time flight_duration sz 1 sk = Some st"
    by (cases "align_iter interp cnt_1mn time flight_duration sz k st0") auto
  have "align_iter interp cnt_1mn time flight_duration sz 1 sk =
          (if a_window_end sk = sz - 1 then None
           else case align_step interp cnt_1mn time flight_duration sz sk of
                  Inl e \<Rightarrow> None
                | Inr st' \<Rightarrow> Some st')"
    unfolding One_nat_def by (simp split: sum.splits)
  with one have nx: "a_window_end sk \<noteq> sz - 1"
    and stp: "align_step interp cnt_1mn time flight_duration sz sk = Inr st"
    by (auto split: if_splits sum.splits)
  from sk nx stp show thesis by (rule that)
qed

lemma align_iter_after_exit:
  assumes "align_iter interp cnt_1mn time flight_duration sz k st0 = Some sk"
    and "a_window_end sk = sz - 1" and "k < j"
  shows "align_iter interp cnt_1mn time flight_duration sz j st0 = None"
proof -
  from \<open>k < j\<close> have "j = k + Suc (j - Suc k)" by simp
  then obtain d where j: "j = k + Suc d" ..
  have stop: "align_iter interp cnt_1mn time flight_duration sz (Suc d) sk = None"
    using assms(2) by simp
  have "align_iter interp cnt_1mn time flight_duration sz (k + Suc d) st0
          = align_iter interp cnt_1mn time flight_duration sz (Suc d) sk"
    by (simp only: align_iter_add assms(1) option.case)
  with stop show ?thesis unfolding j by (simp only:)
qed

lemma align_window_after_exit:
  assumes "align_iter interp cnt_1mn time flight_duration sz k st0 = Some sk"
    and "a_window_end sk = sz - 1" and "k \<le> j"
  shows "align_window interp cnt_1mn time flight_duration sz st0 j = None"
proof (cases "j = k")
  case True
  with assms show ?thesis by (simp add: align_window_def)
next
  case False
  with assms(3) have "k < j" by simp
  with assms(1,2) have "align_iter interp cnt_1mn time flight_duration sz j st0 = None"
    by (rule align_iter_after_exit)
  then show ?thesis by (simp add: align_window_def)
qed

lemma align_loop_iter:
  "align_loop interp cnt_1mn time flight_duration sz st = Inr r \<Longrightarrow>
     \<exists>k st'. align_iter interp cnt_1mn time flight_duration sz k st = Some st'
        \<and> a_window_end st' = sz - 1
        \<and> r = (a_takeoff_idx st', a_landing_idx st', max_R2 st')"
proof (induction interp cnt_1mn time flight_duration sz st rule: align_loop.induct)
  case (1 interp cnt_1mn time flight_duration sz st)
  show ?case
  proof (cases "a_window_end st = sz - 1")
    case True
    with 1(2) have "r = (a_takeoff_idx st, a_landing_idx st, max_R2 st)" by simp
    with True have "align_iter interp cnt_1mn time flight_duration sz 0 st = Some st
        \<and> a_window_end st = sz - 1
        \<and> r = (a_takeoff_idx st, a_landing_idx st, max_R2 st)" by simp
    then show ?thesis by blast
  next
    case False
    with 1(2) obtain st' where s: "align_step interp cnt_1mn time flight_duration sz st = Inr st'"
      and l: "align_loop interp cnt_1mn time flight_duration sz st' = Inr r"
      by (auto split: sum.splits)
    from 1(1) [OF False s l] obtain k st'' where k:
      "align_iter interp cnt_1mn time flight_duration sz k st' = Some st''"
      "a_window_end st'' = sz - 1"
      "r = (a_takeoff_idx st'', a_landing_idx st'', max_R2 st'')" by blast
    with s False have "align_iter interp cnt_1mn time flight_duration sz (Suc k) st = Some st''
        \<and> a_window_end st'' = sz - 1
        \<and> r = (a_takeoff_idx st'', a_landing_idx st'', max_R2 st'')" by simp
    then show ?thesis by blast
  qed
qed

lemma align_invariant:
  assumes "align_iter interp cnt_1mn time flight_duration sz k st0 = Some st"
  shows "(a_takeoff_idx st = a_takeoff_idx st0 \<and> a_landing_idx st = a_landing_idx st0
            \<and> max_R2 st = max_R2 st0
            \<and> (\<forall>j<k. \<forall>a b R. align_window interp cnt_1mn time flight_duration sz st0 j
                                 = Some (a, b, R) \<longrightarrow> R \<le> max_R2 st0))
         \<or> (\<exists>m<k. \<exists>a. align_window interp cnt_1mn time flight_duration sz st0 m
                      = Some (a, a_landing_idx st, max_R2 st)
                \<and> a_takeoff_idx st = a + 1
                \<and> (\<forall>j<k. \<forall>a' b R. align_window interp cnt_1mn time flight_duration sz st0 j
                                    = Some (a', b, R)
                       \<longrightarrow> R \<le> max_R2 st \<and> (R = max_R2 st \<longrightarrow> m \<le> j)))"
  using assms
proof (induction k arbitrary: st)
  case 0
  then show ?case by simp
next
  case (Suc k)
  from Suc.prems obtain sk where sk: "align_iter interp cnt_1mn time flight_duration sz k st0 = Some sk"
    and nx: "a_window_end sk \<noteq> sz - 1"
    and step: "align_step interp cnt_1mn time flight_duration sz sk = Inr st"
    by (rule align_iter_SucD)
  let ?W = "align_window interp cnt_1mn time flight_duration sz st0"
  have wk: "?W k = align_candidate interp cnt_1mn time flight_duration sz sk"
    using nx by (simp add: align_window_def sk)
  note IH = Suc.IH [OF sk]
  note best = align_step_best [OF step]
  from IH have bound: "\<And>j a b R. j < k \<Longrightarrow> ?W j = Some (a, b, R) \<Longrightarrow> R \<le> max_R2 sk"
    by (elim disjE) (fastforce, blast)
  show ?case
  proof (cases "\<exists>a b R. ?W k = Some (a, b, R) \<and> max_R2 sk < R")
    case True
    then obtain a b R where c: "?W k = Some (a, b, R)" and gt: "max_R2 sk < R" by blast
    from c wk have cand: "align_candidate interp cnt_1mn time flight_duration sz sk = Some (a, b, R)"
      by simp
    from best gt have new: "a_takeoff_idx st = a + 1" "a_landing_idx st = b" "max_R2 st = R"
      unfolding cand by simp_all
    have "\<forall>j<Suc k. \<forall>a' b' R'. ?W j = Some (a', b', R')
            \<longrightarrow> R' \<le> max_R2 st \<and> (R' = max_R2 st \<longrightarrow> k \<le> j)"
    proof (intro allI impI)
      fix j a' b' R' assume j: "j < Suc k" and w: "?W j = Some (a', b', R')"
      then consider "j = k" | "j < k" by linarith
      then show "R' \<le> max_R2 st \<and> (R' = max_R2 st \<longrightarrow> k \<le> j)"
      proof cases
        case 1
        with w c new show ?thesis by simp
      next
        case 2
        with w have "R' \<le> max_R2 sk" by (rule bound [rotated])
        with gt new show ?thesis by simp
      qed
    qed
    with c new have "\<exists>m<Suc k. \<exists>a. ?W m = Some (a, a_landing_idx st, max_R2 st)
                \<and> a_takeoff_idx st = a + 1
                \<and> (\<forall>j<Suc k. \<forall>a' b R. ?W j = Some (a', b, R)
                       \<longrightarrow> R \<le> max_R2 st \<and> (R = max_R2 st \<longrightarrow> m \<le> j))"
      by (intro exI [of _ k] exI [of _ a]) simp
    then show ?thesis by (rule disjI2)
  next
    case False
    from False wk have "align_candidate interp cnt_1mn time flight_duration sz sk = None
        \<or> (\<exists>a b R. align_candidate interp cnt_1mn time flight_duration sz sk = Some (a, b, R)
             \<and> \<not> max_R2 sk < R)"
      by (cases "align_candidate interp cnt_1mn time flight_duration sz sk") auto
    with best have same: "a_takeoff_idx st = a_takeoff_idx sk" "a_landing_idx st = a_landing_idx sk"
      "max_R2 st = max_R2 sk"
      by auto
    from False have lastk: "\<And>a b R. ?W k = Some (a, b, R) \<Longrightarrow> R \<le> max_R2 sk"
      by force
    from IH show ?thesis
    proof
      assume old: "a_takeoff_idx sk = a_takeoff_idx st0 \<and> a_landing_idx sk = a_landing_idx st0
            \<and> max_R2 sk = max_R2 st0
            \<and> (\<forall>j<k. \<forall>a b R. ?W j = Some (a, b, R) \<longrightarrow> R \<le> max_R2 st0)"
      have "\<forall>j<Suc k. \<forall>a b R. ?W j = Some (a, b, R) \<longrightarrow> R \<le> max_R2 st0"
      proof (intro allI impI)
        fix j a b R assume "j < Suc k" and w: "?W j = Some (a, b, R)"
        then consider "j = k" | "j < k" by linarith
        then show "R \<le> max_R2 st0"
        proof cases
          case 1
          with w lastk old show ?thesis by simp
        next
          case 2
          with w old show ?thesis by blast
        qed
      qed
      with same old show ?thesis by simp
    next
      assume "\<exists>m<k. \<exists>a. ?W m = Some (a, a_landing_idx sk, max_R2 sk)
                \<and> a_takeoff_idx sk = a + 1
                \<and> (\<forall>j<k. \<forall>a' b R. ?W j = Some (a', b, R)
                       \<longrightarrow> R \<le> max_R2 sk \<and> (R = max_R2 sk \<longrightarrow> m \<le> j))"
      then obtain m a where m: "m < k"
        and wm: "?W m = Some (a, a_landing_idx sk, max_R2 sk)"
        and tk: "a_takeoff_idx sk = a + 1"
        and all: "\<forall>j<k. \<forall>a' b R. ?W j = Some (a', b, R)
                       \<longrightarrow> R \<le> max_R2 sk \<and> (R = max_R2 sk \<longrightarrow> m \<le> j)"
        by blast
      have "\<forall>j<Suc k. \<forall>a' b R. ?W j = Some (a', b, R)
                       \<longrightarrow> R \<le> max_R2 st \<and> (R = max_R2 st \<longrightarrow> m \<le> j)"
      proof (intro allI impI)
        fix j a' b R assume "j < Suc k" and w: "?W j = Some (a', b, R)"
        then consider "j = k" | "j < k" by linarith
        then show "R \<le> max_R2 st \<and> (R = max_R2 st \<longrightarrow> m \<le> j)"
        proof cases
          case 1
          with w lastk same m show ?thesis by force
        next
          case 2
          with w all same show ?thesis by simp
        qed
      qed
      with m wm tk same have "\<exists>m<Suc k. \<exists>a. ?W m = Some (a, a_landing_idx st, max_R2 st)
                \<and> a_takeoff_idx st = a + 1
                \<and> (\<forall>j<Suc k. \<forall>a' b R. ?W j = Some (a', b, R)
                       \<longrightarrow> R \<le> max_R2 st \<and> (R = max_R2 st \<longrightarrow> m \<le> j))"
        by (intro exI [of _ m] exI [of _ a]) simp
      then show ?thesis by (rule disjI2)
    qed
  qed
qed

lemma align_time_first_maximal:
  assumes "align_time interp cnt_1mn time flight_duration = Inr (tk, ld, R2)"
  shows "(tk = 0 \<and> ld = length time - 1 \<and> R2 = 0
            \<and> (\<forall>j a b R. align_examined interp cnt_1mn time flight_duration j = Some (a, b, R)
                  \<longrightarrow> R \<le> 0))
         \<or> (\<exists>m a. align_examined interp cnt_1mn time flight_duration m = Some (a, ld, R2)
                \<and> tk = a + 1
                \<and> (\<forall>j a' b R. align_examined interp cnt_1mn time flight_duration j = Some (a', b, R)
                       \<longrightarrow> R \<le> R2 \<and> (R = R2 \<longrightarrow> m \<le> j)))"
proof -
  let ?n = "length time"
  let ?W = "align_window interp cnt_1mn time flight_duration ?n (align_init ?n)"
  from assms have "align_loop interp cnt_1mn time flight_duration ?n (align_init ?n) = Inr (tk, ld, R2)"
    by (auto simp: align_time_def Let_def split: if_splits)
  then obtain k st where it: "align_iter interp cnt_1mn time flight_duration ?n k (align_init ?n) = Some st"
    and ex: "a_window_end st = ?n - 1"
    and r: "tk = a_takeoff_idx st" "ld = a_landing_idx st" "R2 = max_R2 st"
    using align_loop_iter by blast
  have late: "\<And>j. k \<le> j \<Longrightarrow> ?W j = None"
    using it ex by (rule align_window_after_exit)
  from align_invariant [OF it] show ?thesis
  proof
    assume a: "a_takeoff_idx st = a_takeoff_idx (align_init ?n)
            \<and> a_landing_idx st = a_landing_idx (align_init ?n)
            \<and> max_R2 st = max_R2 (align_init ?n)
            \<and> (\<forall>j<k. \<forall>a b R. ?W j = Some (a, b, R) \<longrightarrow> R \<le> max_R2 (align_init ?n))"
    have "\<forall>j a b R. ?W j = Some (a, b, R) \<longrightarrow> R \<le> 0"
    proof (intro allI impI)
      fix j a' b' R assume w: "?W j = Some (a', b', R)"
      with late have "j < k" by (cases "j < k") auto
      with a w show "R \<le> 0" by (auto simp: align_init_def)
    qed
    with a r show ?thesis by (simp add: align_init_def align_examined_def)
  next
    assume "\<exists>m<k. \<exists>a. ?W m = Some (a, a_landing_idx st, max_R2 st)
                \<and> a_takeoff_idx st = a + 1
                \<and> (\<forall>j<k. \<forall>a' b R. ?W j = Some (a', b, R)
                       \<longrightarrow> R \<le> max_R2 st \<and> (R = max_R2 st \<longrightarrow> m \<le> j))"
    then obtain m a where wm: "?W m = Some (a, a_landing_idx st, max_R2 st)"
      and tk: "a_takeoff_idx st = a + 1"
      and all: "\<forall>j<k. \<forall>a' b R. ?W j = Some (a', b, R)
                       \<longrightarrow> R \<le> max_R2 st \<and> (R = max_R2 st \<longrightarrow> m \<le> j)" by blast
    have "\<forall>j a' b R. ?W j = Some (a', b, R) \<longrightarrow> R \<le> max_R2 st \<and> (R = max_R2 st \<longrightarrow> m \<le> j)"
    proof (intro allI impI)
      fix j a' b' R assume w: "?W j = Some (a', b', R)"
      with late have "j < k" by (cases "j < k") auto
      with all w show "R \<le> max_R2 st \<and> (R = max_R2 st \<longrightarrow> m \<le> j)" by blast
    qed
    with wm tk r have "\<exists>m a. align_examined interp cnt_1mn time flight_duration m = Some (a, ld, R2)
                \<and> tk = a + 1
                \<and> (\<forall>j a' b R. align_examined interp cnt_1mn time flight_duration j = Some (a', b, R)
                       \<longrightarrow> R \<le> R2 \<and> (R = R2 \<longrightarrow> m \<le> j))"
      unfolding align_examined_def by blast
    then show ?thesis by (rule disjI2)
  qed
qed

lemma align_iter_start:
  "align_iter interp cnt_1mn time flight_duration sz k st = Some sk \<Longrightarrow>
     a_window_start sk = a_window_start st + k"
proof (induction k arbitrary: st)
  case 0
  then show ?case by simp
next
  case (Suc k)
  from Suc.prems obtain st' where s: "align_step interp cnt_1mn time flight_duration sz st = Inr st'"
    and it: "align_iter interp cnt_1mn time flight_duration sz k st' = Some sk"
    by (auto split: if_splits sum.splits)
  from s have "a_window_start st' = a_window_start st + 1"
    by (simp add: align_step_advances)
  with Suc.IH [OF it] show ?case by simp
qed

lemma align_examined_start:
  assumes "align_examined interp cnt_1mn time flight_duration j = Some (a, b, R)"
  shows "a = j"
proof -
  from assms obtain sj where
    it: "align_iter interp cnt_1mn time flight_duration (length time) j
           (align_init (length time)) = Some sj"
    and c: "align_candidate interp cnt_1mn time flight_duration (length time) sj = Some (a, b, R)"
    unfolding align_examined_def align_window_def by (auto split: option.splits if_splits)
  from c have "a = a_window_start sj"
    unfolding align_candidate_def by (auto split: sum.splits if_splits)
  with align_iter_start [OF it] show ?thesis by (simp add: align_init_def)
qed

lemma sum_squares_nonneg: "0 \<le> sum_list (map (\<lambda>x. x ^ 2) (xs :: rat list))"
  by (induction xs) simp_all

lemma sum_squares_zero: "sum_list (map (\<lambda>x. x ^ 2) (xs :: rat list)) = 0 \<Longrightarrow> x \<in> set xs \<Longrightarrow> x = 0"
proof (induction xs)
  case Nil
  then show ?case by simp
next
  case (Cons y ys)
  have "0 \<le> y ^ 2" "0 \<le> sum_list (map (\<lambda>x. x ^ 2) ys)"
    by (simp_all add: sum_squares_nonneg)
  with Cons.prems(1) have "y ^ 2 = 0" "sum_list (map (\<lambda>x. x ^ 2) ys) = 0"
    by (simp_all add: add_nonneg_eq_0_iff)
  with Cons show ?case by auto
qed

lemma sum_list_all_zero: "(\<And>x. x \<in> set xs \<Longrightarrow> x = 0) \<Longrightarrow> sum_list (xs :: rat list) = 0"
  by (induction xs) simp_all

lemma fit_R2_le_1:
  assumes "fit_R2 measurement reference_adjusted = Some R"
  shows "R \<le> 1"
proof -
  from assms obtain b where
    R: "R = 1 - sum_list (map (\<lambda>x. x ^ 2) (map2 (\<lambda>m r. m - b * r) measurement reference_adjusted))
              / sum_list (map (\<lambda>m. (m - np_mean measurement) ^ 2) measurement)"
    unfolding fit_R2_def by (auto simp: Let_def split: option.splits if_splits)
  have "0 \<le> sum_list (map (\<lambda>x. x ^ 2) (map2 (\<lambda>m r. m - b * r) measurement reference_adjusted))"
    by (rule sum_squares_nonneg)
  moreover have "0 \<le> sum_list (map (\<lambda>m. (m - np_mean measurement) ^ 2) measurement)"
    using sum_squares_nonneg [of "map (\<lambda>m. m - np_mean measurement) measurement"]
    by (simp add: comp_def)
  ultimately show ?thesis unfolding R by simp
qed

lemma np_dot_twice: "np_dot m (map (\<lambda>c. 2 * c) m) = 2 * sum_list (map (\<lambda>x. x ^ 2) m)"
  by (induction m) (simp_all add: np_dot_def power2_eq_square algebra_simps)

lemma sum_squares_twice:
  "sum_list (map (\<lambda>r. r ^ 2) (map (\<lambda>c. 2 * c) (m :: rat list))) = 4 * sum_list (map (\<lambda>x. x ^ 2) m)"
  by (induction m) (simp_all add: power2_eq_square algebra_simps)

lemma residual_twice:
  "sum_list (map (\<lambda>x. x ^ 2) (map2 (\<lambda>m r. m - 1 / 2 * r) m (map (\<lambda>c. 2 * c) (m :: rat list)))) = 0"
  by (induction m) simp_all

lemma beta_hat_twice:
  "beta_hat m (map (\<lambda>c. 2 * c) m)
     = (if sum_list (map (\<lambda>x. x ^ 2) m) = 0 then None else Some (1 / 2))"
  unfolding beta_hat_def np_true_divide_def np_dot_twice sum_squares_twice by simp

lemma fit_R2_twice:
  "fit_R2 m (map (\<lambda>c. 2 * c) m)
     = (if sum_list (map (\<lambda>x. (x - np_mean m) ^ 2) m) = 0 then None else Some 1)"
proof (cases "sum_list (map (\<lambda>x. x ^ 2) m) = 0")
  case True
  then have z: "\<And>x. x \<in> set m \<Longrightarrow> x = 0" by (rule sum_squares_zero)
  then have "sum_list m = 0" by (rule sum_list_all_zero)
  then have "np_mean m = 0" by (simp add: np_mean_def)
  then have mean: "np_mean m = 0" .
  have "sum_list (map (\<lambda>x. (x - np_mean m) ^ 2) m) = 0"
  proof (rule sum_list_all_zero)
    fix y assume "y \<in> set (map (\<lambda>x. (x - np_mean m) ^ 2) m)"
    then obtain x where "x \<in> set m" and y: "y = (x - np_mean m) ^ 2" by auto
    then have "x = 0" using z by simp
    with y mean show "y = 0" by simp
  qed
  with True show ?thesis unfolding fit_R2_def beta_hat_twice by simp
next
  case False
  then have b: "beta_hat m (map (\<lambda>c. 2 * c) m) = Some (1 / 2)"
    unfolding beta_hat_twice by simp
  show ?thesis
    by (simp only: fit_R2_def b option.case Let_def residual_twice) (simp add: False)
qed

text \<open>
  Claim C4 says that both window searches return a window inside the data for every
  input.  With two samples \<^verbatim>\<open>align_time\<close> raises \<^verbatim>\<open>IndexError\<close>: no window has six
  samples, the window start runs past the data and \<^verbatim>\<open>device_data['time'][window_start]\<close>
  is read out of range.  And \<^verbatim>\<open>estimate_takeoff\<close> does not return when the last gap of the
  timestamps is as long as the flight: the last window holds one sample, \<^verbatim>\<open>dt\<close> is zero,
  and the \<^verbatim>\<open>continue\<close> branch moves the window stop beyond the last index for good.
\<close>

theorem window_search_failures:
  "align_time (lin_interp [0, 3600, 7200] [3, 5, 3]) [10, 12] [0, 60] 7200 = Inl IndexError
   \<and> estimate_takeoff [1, 1, 1] [0, 60, 1860] 1800 100 = None"
proof
  show "align_time (lin_interp [0, 3600, 7200] [3, 5, 3]) [10, 12] [0, 60] 7200 = Inl IndexError"
    by code_simp
  have "case est_iter (est_cumsum [1, 1, 1] 100) [0, 60, 1860] 1800 3 3 (est_init 3) of
          None \<Rightarrow> False | Some sk \<Rightarrow> est_stuck 3 sk"
    by code_simp
  then have "estimate_loop (est_cumsum [1, 1, 1] 100) [0, 60, 1860] 1800 3 (est_init 3) = None"
    by (rule estimate_loop_diverges)
  moreover have "length [1, 1, 1 :: int] = 3" by simp
  ultimately show "estimate_takeoff [1, 1, 1] [0, 60, 1860] 1800 100 = None"
    by (simp only: estimate_takeoff_def Let_def) simp
qed

text \<open>
  Claim C10 says that, when several windows of \<^verbatim>\<open>estimate_takeoff\<close> attain the maximal
  sum, the last of them is returned.  The comparison \<^verbatim>\<open>this_sum >= max_sum\<close> does keep the
  last one (\<open>estimate_takeoff_last_maximal\<close>), as \<^verbatim>\<open>R2 > max_R2\<close> keeps the first one in
  \<^verbatim>\<open>align_time\<close> (\<open>align_time_first_maximal\<close>), but only a scan that ends returns it.
  Here the windows that start at \<open>0\<close> and at \<open>2\<close> both have the maximal sum \<open>5\<close>, the last
  gap of the timestamps is as long as the flight, and nothing is returned: the loop never
  ends, as in claim C4.
\<close>

theorem tied_windows_never_returned:
  "map (est_examined [0, 5, 0, 5, 0] [0, 60, 120, 180, 300] 120 100) [0 ..< 7]
     = [Some (0, 1, 5), Some (1, 2, 0), Some (2, 3, 5), Some (3, 3, 0), None, None, None]
   \<and> estimate_takeoff [0, 5, 0, 5, 0] [0, 60, 120, 180, 300] 120 100 = None"
proof
  show "map (est_examined [0, 5, 0, 5, 0] [0, 60, 120, 180, 300] 120 100) [0 ..< 7]
     = [Some (0, 1, 5), Some (1, 2, 0), Some (2, 3, 5), Some (3, 3, 0), None, None, None]"
    by code_simp
  have "case est_iter (est_cumsum [0, 5, 0, 5, 0] 100) [0, 60, 120, 180, 300] 120 5 5 (est_init 5) of
          None \<Rightarrow> False | Some sk \<Rightarrow> est_stuck 5 sk"
    by code_simp
  then have "estimate_loop (est_cumsum [0, 5, 0, 5, 0] 100) [0, 60, 120, 180, 300] 120 5 (est_init 5)
               = None"
    by (rule estimate_loop_diverges)
  moreover have "length [0, 5, 0, 5, 0 :: int] = 5" by simp
  ultimately show "estimate_takeoff [0, 5, 0, 5, 0] [0, 60, 120, 180, 300] 120 100 = None"
    by (simp only: estimate_takeoff_def Let_def) simp
qed

lemma deviations_zero:
  assumes "sum_list (map (\<lambda>x. (x - c) ^ 2) (xs :: rat list)) = 0" "x \<in> set xs"
  shows "x = c"
proof -
  have "sum_list (map (\<lambda>y. y ^ 2) (map (\<lambda>x. x - c) xs)) = 0"
    using assms(1) by (simp add: comp_def)
  moreover have "x - c \<in> set (map (\<lambda>x. x - c) xs)" using assms(2) by simp
  ultimately have "x - c = 0" by (rule sum_squares_zero)
  then show ?thesis by simp
qed

lemma align_fitted_examined:
  assumes "align_fitted interp cnt_1mn time flight_duration j = Some (a, b)"
    and "length (window_measurement cnt_1mn a b) = length (interp (window_times time a b))"
  shows "align_examined interp cnt_1mn time flight_duration j
           = map_option (\<lambda>R. (a, b, R))
               (fit_R2 (window_measurement cnt_1mn a b) (interp (window_times time a b)))"
  using assms
  unfolding align_fitted_def align_examined_def align_window_def align_span_def
    align_candidate_def
  by (auto split: option.splits sum.splits if_splits)

text \<open>
  Claim C3, as stated: a window that meets the two constraints and on which the reference
  is exactly twice the counts would be returned with its own start and end, with
  \<open>R\<^sup>2 = 1\<close> and \<open>\<beta> = 2\<close>.  In the first stream the window from index \<open>1\<close> to index \<open>6\<close> is
  such a window and the scan fits it; the start index returned is \<open>2\<close>, and the slope fitted
  on it is \<open>1/2\<close>.  In the second stream the flight lasts \<open>420\<close> seconds and the window
  from \<open>1\<close> to \<open>6\<close> meets the constraints (it spans \<open>300\<close> seconds and holds six samples),
  but the scan fits only the window from \<open>0\<close> to \<open>7\<close>, the longest one that starts at
  \<open>0\<close>, and that is the window returned, with an \<open>R\<^sup>2\<close> below \<open>1\<close>.  In the third stream
  all counts are \<open>5\<close> and the reference is \<open>10\<close>: the scan fits the window from \<open>0\<close> to
  \<open>5\<close>, the total sum of squares is zero, the window is skipped (\<^verbatim>\<open>if TSS == 0: continue\<close>),
  and the initial values are returned with \<open>R\<^sup>2 = 0\<close>.
\<close>

theorem align_time_exact_window_counterexample:
  "lin_interp [0, 60, 120, 180, 240, 300] [2, 4, 6, 8, 10, 12]
       (window_times [0, 60, 120, 180, 240, 300, 360] 1 6)
     = map (\<lambda>c. 2 * c) (window_measurement [9, 1, 2, 3, 4, 5, 6] 1 6)
   \<and> align_time (lin_interp [0, 60, 120, 180, 240, 300] [2, 4, 6, 8, 10, 12])
        [9, 1, 2, 3, 4, 5, 6] [0, 60, 120, 180, 240, 300, 360] 300 = Inr (2, 6, 1)
   \<and> align_time (lin_interp [0, 60, 120, 180, 240, 300] [2, 4, 6, 8, 10, 12])
        [9, 1, 2, 3, 4, 5, 6] [0, 60, 120, 180, 240, 300, 360] 300 \<noteq> Inr (1, 6, 1)
   \<and> beta_hat (window_measurement [9, 1, 2, 3, 4, 5, 6] 1 6)
        (lin_interp [0, 60, 120, 180, 240, 300] [2, 4, 6, 8, 10, 12]
           (window_times [0, 60, 120, 180, 240, 300, 360] 1 6)) = Some (1 / 2)
   \<and> beta_hat (window_measurement [9, 1, 2, 3, 4, 5, 6] 1 6)
        (lin_interp [0, 60, 120, 180, 240, 300] [2, 4, 6, 8, 10, 12]
           (window_times [0, 60, 120, 180, 240, 300, 360] 1 6)) \<noteq> Some 2
   \<and> lin_interp [0, 60, 120, 180, 240, 300] [2, 4, 6, 8, 10, 12]
       (window_times [0, 60, 120, 180, 240, 300, 360, 420] 1 6)
     = map (\<lambda>c. 2 * c) (window_measurement [1, 1, 2, 3, 4, 5, 6, 7] 1 6)
   \<and> \<not> (2 * ([0, 60, 120, 180, 240, 300, 360, 420] ! 6 - [0, 60, 120, 180, 240, 300, 360, 420] ! 1)
          < (420 :: int) \<or> int 6 - int 1 < 5)
   \<and> map (align_fitted (lin_interp [0, 60, 120, 180, 240, 300] [2, 4, 6, 8, 10, 12])
            [1, 1, 2, 3, 4, 5, 6, 7] [0, 60, 120, 180, 240, 300, 360, 420] 420) [0 ..< 8]
       = [Some (0, 7), None, None, None, None, None, None, None]
   \<and> align_time (lin_interp [0, 60, 120, 180, 240, 300] [2, 4, 6, 8, 10, 12])
        [1, 1, 2, 3, 4, 5, 6, 7] [0, 60, 120, 180, 240, 300, 360, 420] 420
       = Inr (1, 7, 40525 / 46781)
   \<and> lin_interp [0, 60] [10, 10] (window_times [0, 60, 120, 180, 240, 300, 360] 0 5)
     = map (\<lambda>c. 2 * c) (window_measurement [5, 5, 5, 5, 5, 5, 5] 0 5)
   \<and> align_fitted (lin_interp [0, 60] [10, 10])
        [5, 5, 5, 5, 5, 5, 5] [0, 60, 120, 180, 240, 300, 360] 300 0 = Some (0, 5)
   \<and> align_time (lin_interp [0, 60] [10, 10])
        [5, 5, 5, 5, 5, 5, 5] [0, 60, 120, 180, 240, 300, 360] 300 = Inr (0, 6, 0)"
  by code_simp

text \<open>
  Claim C3, amended.  Let the scan of \<^verbatim>\<open>align_time\<close> fit a window from \<open>a\<close> to \<open>b\<close> (a
  run of its loop reaches the regression with that window), let the interpolated
  reference be exactly twice the counts on it, and let the counts of the window not be all
  equal.  Then the slope fitted on that window is \<open>\<beta> = 1/2\<close> (the measurement is \<open>\<beta>\<close> times
  the reference), its \<open>R\<^sup>2\<close> is \<open>1\<close>, \<^verbatim>\<open>align_time\<close> returns \<open>R\<^sup>2 = 1\<close>, and the end index it
  returns is that of the first fitted window whose \<open>R\<^sup>2\<close> is \<open>1\<close>: that window starts at or
  before \<open>a\<close>, and no window with \<open>R\<^sup>2 = 1\<close> starts before it.
\<close>

theorem exact_double_window:
  assumes ret: "align_time interp cnt_1mn time flight_duration = Inr (tk, ld, R2)"
    and fitted: "align_fitted interp cnt_1mn time flight_duration j = Some (a, b)"
    and twice: "interp (window_times time a b) = map (\<lambda>c. 2 * c) (window_measurement cnt_1mn a b)"
    and varied: "\<exists>x \<in> set (window_measurement cnt_1mn a b).
                   \<exists>y \<in> set (window_measurement cnt_1mn a b). x \<noteq> y"
  shows "beta_hat (window_measurement cnt_1mn a b) (interp (window_times time a b)) = Some (1 / 2)
         \<and> align_examined interp cnt_1mn time flight_duration j = Some (a, b, 1)
         \<and> R2 = 1
         \<and> (\<exists>a0. a0 \<le> a
                \<and> align_examined interp cnt_1mn time flight_duration a0 = Some (a0, ld, 1)
                \<and> (\<forall>i a' b'. align_examined interp cnt_1mn time flight_duration i = Some (a', b', 1)
                       \<longrightarrow> a0 \<le> a'))"
proof -
  let ?A = "align_examined interp cnt_1mn time flight_duration"
  let ?m = "window_measurement cnt_1mn a b"
  have fit_of: "\<And>i a' b' R'. ?A i = Some (a', b', R') \<Longrightarrow>
                 fit_R2 (window_measurement cnt_1mn a' b') (interp (window_times time a' b')) = Some R'"
    unfolding align_examined_def align_window_def
    by (auto split: option.splits if_splits dest: align_candidate_fit)
  have tss: "sum_list (map (\<lambda>x. (x - np_mean ?m) ^ 2) ?m) \<noteq> 0"
  proof
    assume z: "sum_list (map (\<lambda>x. (x - np_mean ?m) ^ 2) ?m) = 0"
    from varied obtain x y where xy: "x \<in> set ?m" "y \<in> set ?m" "x \<noteq> y" by blast
    from deviations_zero [OF z xy(1)] deviations_zero [OF z xy(2)] xy(3) show False by simp
  qed
  then have fit: "fit_R2 ?m (map (\<lambda>c. 2 * c) ?m) = Some 1"
    unfolding fit_R2_twice by simp
  have len: "length ?m = length (interp (window_times time a b))"
    unfolding twice by simp
  from align_fitted_examined [OF fitted len] fit twice
  have ex: "?A j = Some (a, b, 1)" by simp
  from fit have "beta_hat ?m (map (\<lambda>c. 2 * c) ?m) \<noteq> None"
    unfolding fit_R2_def by (auto split: option.splits)
  then have beta: "beta_hat ?m (map (\<lambda>c. 2 * c) ?m) = Some (1 / 2)"
    unfolding beta_hat_twice by (simp split: if_splits)
  from align_time_first_maximal [OF ret]
  have "R2 = 1 \<and> (\<exists>a0. a0 \<le> a \<and> ?A a0 = Some (a0, ld, 1)
                      \<and> (\<forall>i a' b'. ?A i = Some (a', b', 1) \<longrightarrow> a0 \<le> a'))"
  proof
    assume "tk = 0 \<and> ld = length time - 1 \<and> R2 = 0
           \<and> (\<forall>j a b R. ?A j = Some (a, b, R) \<longrightarrow> R \<le> 0)"
    with ex show ?thesis by force
  next
    assume "\<exists>m a. ?A m = Some (a, ld, R2) \<and> tk = a + 1
              \<and> (\<forall>j a' b R. ?A j = Some (a', b, R) \<longrightarrow> R \<le> R2 \<and> (R = R2 \<longrightarrow> m \<le> j))"
    then obtain m a0 where wm: "?A m = Some (a0, ld, R2)"
      and all: "\<forall>j a' b R. ?A j = Some (a', b, R) \<longrightarrow> R \<le> R2 \<and> (R = R2 \<longrightarrow> m \<le> j)"
      by blast
    from all ex have ge: "1 \<le> R2" by blast
    from fit_of [OF wm] have "R2 \<le> 1" by (rule fit_R2_le_1)
    with ge have R2: "R2 = 1" by simp
    with all ex have "m \<le> j" by blast
    moreover from wm have m: "a0 = m" by (rule align_examined_start)
    moreover from ex have "a = j" by (rule align_examined_start)
    ultimately have le: "a0 \<le> a" by simp
    have first: "\<forall>i a' b'. ?A i = Some (a', b', 1) \<longrightarrow> a0 \<le> a'"
    proof (intro allI impI)
      fix i a' b' assume w: "?A i = Some (a', b', 1)"
      then have "a' = i" by (rule align_examined_start)
      moreover from all w R2 have "m \<le> i" by blast
      ultimately show "a0 \<le> a'" using m by simp
    qed
    from wm R2 m le first show ?thesis by blast
  qed
  with beta ex twice show ?thesis by simp
qed

theorem exact_double_window_witness:
  "align_time (lin_interp [0, 60, 120, 180, 240, 300] [2, 4, 6, 8, 10, 12])
        [9, 1, 2, 3, 4, 5, 6] [0, 60, 120, 180, 240, 300, 360] 300 = Inr (2, 6, 1)
   \<and> align_fitted (lin_interp [0, 60, 120, 180, 240, 300] [2, 4, 6, 8, 10, 12])
        [9, 1, 2, 3, 4, 5, 6] [0, 60, 120, 180, 240, 300, 360] 300 1 = Some (1, 6)
   \<and> lin_interp [0, 60, 120, 180, 240, 300] [2, 4, 6, 8, 10, 12]
        (window_times [0, 60, 120, 180, 240, 300, 360] 1 6)
       = map (\<lambda>c. 2 * c) (window_measurement [9, 1, 2, 3, 4, 5, 6] 1 6)
   \<and> window_measurement [9, 1, 2, 3, 4, 5, 6] 1 6 = [1, 2, 3, 4, 5, 6]
   \<and> beta_hat (window_measurement [9, 1, 2, 3, 4, 5, 6] 1 6)
        (lin_interp [0, 60, 120, 180, 240, 300] [2, 4, 6, 8, 10, 12]
           (window_times [0, 60, 120, 180, 240, 300, 360] 1 6)) = Some (1 / 2)
   \<and> align_examined (lin_interp [0, 60, 120, 180, 240, 300] [2, 4, 6, 8, 10, 12])
        [9, 1, 2, 3, 4, 5, 6] [0, 60, 120, 180, 240, 300, 360] 300 1 = Some (1, 6, 1)
   \<and> (\<exists>a0. a0 \<le> 1
          \<and> align_examined (lin_interp [0, 60, 120, 180, 240, 300] [2, 4, 6, 8, 10, 12])
               [9, 1, 2, 3, 4, 5, 6] [0, 60, 120, 180, 240, 300, 360] 300 a0 = Some (a0, 6, 1)
          \<and> (\<forall>i a' b'. align_examined (lin_interp [0, 60, 120, 180, 240, 300] [2, 4, 6, 8, 10, 12])
                          [9, 1, 2, 3, 4, 5, 6] [0, 60, 120, 180, 240, 300, 360] 300 i
                          = Some (a', b', 1)
                 \<longrightarrow> a0 \<le> a'))"
proof -
  let ?I = "lin_interp [0, 60, 120, 180, 240, 300] [2, 4, 6, 8, 10, 12]"
  let ?C = "[9, 1, 2, 3, 4, 5, 6] :: int list"
  let ?T = "[0, 60, 120, 180, 240, 300, 360] :: int list"
  have h1: "align_time ?I ?C ?T 300 = Inr (2, 6, 1)" by code_simp
  have h2: "align_fitted ?I ?C ?T 300 1 = Some (1, 6)" by code_simp
  have h3: "?I (window_times ?T 1 6) = map (\<lambda>c. 2 * c) (window_measurement ?C 1 6)"
    by code_simp
  have h4: "window_measurement ?C 1 6 = [1, 2, 3, 4, 5, 6]" by code_simp
  have h5: "\<exists>x \<in> set (window_measurement ?C 1 6). \<exists>y \<in> set (window_measurement ?C 1 6). x \<noteq> y"
    unfolding h4 by (intro bexI [of _ 1] bexI [of _ 2]) simp_all
  from exact_double_window [OF h1 h2 h3 h5] h1 h2 h3 h4 show ?thesis by simp
qed

section \<open>Properties of the file format\<close>

lemma plainD:
  assumes "plain v"
  shows "trimmed v" "CHR ''='' \<notin> set v" "CHR 0x0A \<notin> set v" "CHR 0x0D \<notin> set v"
  using assms by (auto simp: plain_def plain_char_def list_all_iff)

lemma fieldD:
  assumes "field v"
  shows "plain v" "CHR '','' \<notin> set v"
  using assms by (simp_all add: field_def)

lemma universal_newlines_id: "CHR 0x0D \<notin> set s \<Longrightarrow> universal_newlines s = s"
  by (induction s rule: universal_newlines.induct) auto

lemma file_lines_line:
  "CHR 0x0A \<notin> set b \<Longrightarrow> file_lines acc (b @ CHR 0x0A # s) = (rev acc @ b @ [CHR 0x0A]) # file_lines [] s"
  by (induction b arbitrary: acc) auto

lemma file_lines_concat:
  assumes "\<forall>l \<in> set ls. text_line l"
  shows "file_lines [] (concat ls) = ls"
  using assms
proof (induction ls)
  case Nil
  show ?case by simp
next
  case (Cons l ls)
  from Cons.prems have tl: "text_line l" by simp
  then have l: "l = butlast l @ [CHR 0x0A]" and nb: "CHR 0x0A \<notin> set (butlast l)"
    unfolding text_line_def by (metis append_butlast_last_id, simp)
  have "file_lines [] (concat (l # ls)) = file_lines [] (butlast l @ CHR 0x0A # concat ls)"
    using l by (metis append.assoc append_Cons append_Nil concat.simps(2))
  also have "\<dots> = (butlast l @ [CHR 0x0A]) # file_lines [] (concat ls)"
    using file_lines_line [OF nb, of "[]" "concat ls"] by simp
  also have "\<dots> = l # ls" using l Cons by simp
  finally show ?case .
qed

lemma text_lines_no_cr:
  assumes "\<forall>l \<in> set ls. text_line l"
  shows "CHR 0x0D \<notin> set (concat ls)"
  using assms by (auto simp: text_line_def)

lemma read_back_lines:
  assumes "\<forall>l \<in> set ls. text_line l"
  shows "file_lines [] (universal_newlines (concat ls)) = ls"
  using universal_newlines_id [OF text_lines_no_cr [OF assms]] file_lines_concat [OF assms]
  by simp

lemma unique_split:
  assumes "x \<notin> set p" "x \<notin> set r" "xs @ x # ys = p @ x # r"
  shows "xs = p \<and> ys = r"
  using assms by (auto simp: append_eq_append_conv2 Cons_eq_append_conv append_eq_Cons_conv)

lemma sublist_key:
  assumes "CHR ''='' \<notin> set p" "CHR ''='' \<notin> set r"
  shows "sublist (kb @ CHR ''='' # ka) (p @ CHR ''='' # r) = (suffix kb p \<and> prefix ka r)"
proof
  assume "sublist (kb @ CHR ''='' # ka) (p @ CHR ''='' # r)"
  then obtain a b where "p @ CHR ''='' # r = a @ (kb @ CHR ''='' # ka) @ b"
    unfolding sublist_def by blast
  then have "(a @ kb) @ CHR ''='' # (ka @ b) = p @ CHR ''='' # r" by simp
  from unique_split [OF assms this] have "a @ kb = p" "ka @ b = r" by simp_all
  then show "suffix kb p \<and> prefix ka r" unfolding suffix_def prefix_def by blast
next
  assume "suffix kb p \<and> prefix ka r"
  then obtain a b where "p = a @ kb" "r = ka @ b" unfolding suffix_def prefix_def by blast
  then have "p @ CHR ''='' # r = a @ (kb @ CHR ''='' # ka) @ b" by simp
  then show "sublist (kb @ CHR ''='' # ka) (p @ CHR ''='' # r)" unfolding sublist_def by blast
qed

lemma header_kind_key:
  assumes "CHR ''='' \<notin> set p" "CHR ''='' \<notin> set r"
  shows "header_kind (p @ CHR ''='' # r) =
     (if suffix ''device_id '' p then K_device_id
      else if suffix ''reference_fit_r2 '' p then K_fit_r2
      else if suffix ''reference_time_offset_s '' p then K_time_offset
      else if suffix ''origin '' p then K_origin
      else if suffix ''destination '' p then K_destination
      else if suffix ''flight_number '' p then K_flight_number
      else if suffix ''takeoff_utc '' p then K_takeoff
      else if suffix ''landing_utc '' p then K_landing
      else if suffix ''simulation_model '' p \<and> prefix '' CARI-7A'' r then K_simulation
      else if suffix ''reference_scaling_beta '' p then K_scaling
      else if suffix ''citizen_id '' p then K_citizen
      else if suffix ''detector_timestamps '' p then K_timestamps
      else K_none)"
  unfolding header_kind_def
  using sublist_key [OF assms, of "''device_id ''" "[]"]
        sublist_key [OF assms, of "''reference_fit_r2 ''" "[]"]
        sublist_key [OF assms, of "''reference_time_offset_s ''" "[]"]
        sublist_key [OF assms, of "''origin ''" "[]"]
        sublist_key [OF assms, of "''destination ''" "[]"]
        sublist_key [OF assms, of "''flight_number ''" "[]"]
        sublist_key [OF assms, of "''takeoff_utc ''" "[]"]
        sublist_key [OF assms, of "''landing_utc ''" "[]"]
        sublist_key [OF assms, of "''simulation_model ''" "'' CARI-7A''"]
        sublist_key [OF assms, of "''reference_scaling_beta ''" "[]"]
        sublist_key [OF assms, of "''citizen_id ''" "[]"]
        sublist_key [OF assms, of "''detector_timestamps ''" "[]"]
  by simp

lemma trimmed_dropWhile:
  assumes "trimmed v"
  shows "dropWhile is_space v = v" "dropWhile is_space (rev v) = rev v"
proof -
  show "dropWhile is_space v = v"
    using assms by (cases v) (simp_all add: trimmed_def)
  show "dropWhile is_space (rev v) = rev v"
  proof (cases "rev v")
    case Nil
    then show ?thesis by simp
  next
    case (Cons c cs)
    then have "v \<noteq> []" and "last v = c" by (auto simp: last_rev [symmetric] simp del: last_rev)
    with assms have "\<not> is_space c" by (simp add: trimmed_def)
    with Cons show ?thesis by simp
  qed
qed

lemma py_strip_trimmed:
  assumes "trimmed v"
  shows "py_strip v = v" "py_strip (CHR '' '' # v) = v" "py_strip (CHR '' '' # v @ nl) = v"
proof -
  note d = trimmed_dropWhile [OF assms]
  have sp: "is_space CHR '' ''" "is_space CHR 0x0A" by (simp_all add: is_space_def)
  have d3: "dropWhile is_space (rev (v @ nl)) = rev v"
    using sp d(2) by (simp add: nl_def)
  have d4: "dropWhile is_space (v @ nl) = (if v = [] then [] else v @ nl)"
    using sp assms by (cases v) (simp_all add: nl_def trimmed_def)
  show "py_strip v = v" by (simp add: py_strip_def d)
  show "py_strip (CHR '' '' # v) = v" using sp by (simp add: py_strip_def d)
  show "py_strip (CHR '' '' # v @ nl) = v"
  proof (cases "v = []")
    case True
    then show ?thesis using sp by (simp add: py_strip_def nl_def)
  next
    case False
    then show ?thesis using sp d3 by (simp add: py_strip_def d4 del: rev_append)
  qed
qed

lemma strip_context_value:
  assumes "CHR ''='' \<notin> set p" "trimmed v"
  shows "strip_context (p @ CHR ''='' # CHR '' '' # v @ nl) = v"
proof -
  have "dropWhile (\<lambda>c. c \<noteq> CHR ''='') (p @ CHR ''='' # CHR '' '' # v @ nl) = CHR ''='' # CHR '' '' # v @ nl"
    using assms(1) by (induction p) auto
  then show ?thesis
    using py_strip_trimmed(3) [OF assms(2)] by (simp add: strip_context_def)
qed

lemma py_split_field:
  "CHR '','' \<notin> set f \<Longrightarrow> py_split CHR '','' acc (f @ CHR '','' # rest) = (rev acc @ f) # py_split CHR '','' [] rest"
  by (induction f arbitrary: acc) auto

lemma py_split_last:
  "CHR '','' \<notin> set f \<Longrightarrow> py_split CHR '','' acc f = [rev acc @ f]"
  by (induction f arbitrary: acc) auto

lemma read_lines_append:
  "read_lines lib d (xs @ ys) = read_lines_from lib (read_lines lib d xs) ys"
  by (induction xs arbitrary: d) (auto split: sum.splits)

lemma read_device_id:
  assumes "plain v"
  shows "read_line lib d (''# device_id = '' @ v @ nl) = Inr (d\<lparr>log_device_id := v\<rparr>)"
proof -
  have l: "''# device_id = '' @ v @ nl = ''# device_id '' @ CHR ''='' # CHR '' '' # v @ nl" by simp
  have k: "header_kind (''# device_id '' @ CHR ''='' # CHR '' '' # v @ nl) = K_device_id"
    using header_kind_key [of "''# device_id ''" "CHR '' '' # v @ nl"] plainD [OF assms(1)]
    by (simp add: suffix_to_prefix nl_def)
  have s: "strip_context (''# device_id '' @ CHR ''='' # CHR '' '' # v @ nl) = v"
    using strip_context_value [of "''# device_id ''" v] plainD(1) [OF assms(1)] by simp
  have p: "prefix ''#'' (''# device_id '' @ CHR ''='' # CHR '' '' # v @ nl)" by simp
  show ?thesis
    unfolding l
    by (simp only: read_line_def read_header_def p k s if_True line_kind.case)
qed

lemma read_fit_r2:
  assumes "plain v"
  shows "read_line lib d (''# reference_fit_r2 = '' @ v @ nl) = Inr (d\<lparr>log_R2 := v\<rparr>)"
proof -
  have l: "''# reference_fit_r2 = '' @ v @ nl = ''# reference_fit_r2 '' @ CHR ''='' # CHR '' '' # v @ nl" by simp
  have k: "header_kind (''# reference_fit_r2 '' @ CHR ''='' # CHR '' '' # v @ nl) = K_fit_r2"
    using header_kind_key [of "''# reference_fit_r2 ''" "CHR '' '' # v @ nl"] plainD [OF assms(1)]
    by (simp add: suffix_to_prefix nl_def)
  have s: "strip_context (''# reference_fit_r2 '' @ CHR ''='' # CHR '' '' # v @ nl) = v"
    using strip_context_value [of "''# reference_fit_r2 ''" v] plainD(1) [OF assms(1)] by simp
  have p: "prefix ''#'' (''# reference_fit_r2 '' @ CHR ''='' # CHR '' '' # v @ nl)" by simp
  show ?thesis
    unfolding l
    by (simp only: read_line_def read_header_def p k s if_True line_kind.case)
qed

lemma read_time_offset:
  assumes "plain v"
  shows "read_line lib d (''# reference_time_offset_s = '' @ v @ nl) = Inr (d\<lparr>log_time_offset := v\<rparr>)"
proof -
  have l: "''# reference_time_offset_s = '' @ v @ nl = ''# reference_time_offset_s '' @ CHR ''='' # CHR '' '' # v @ nl" by simp
  have k: "header_kind (''# reference_time_offset_s '' @ CHR ''='' # CHR '' '' # v @ nl) = K_time_offset"
    using header_kind_key [of "''# reference_time_offset_s ''" "CHR '' '' # v @ nl"] plainD [OF assms(1)]
    by (simp add: suffix_to_prefix nl_def)
  have s: "strip_context (''# reference_time_offset_s '' @ CHR ''='' # CHR '' '' # v @ nl) = v"
    using strip_context_value [of "''# reference_time_offset_s ''" v] plainD(1) [OF assms(1)] by simp
  have p: "prefix ''#'' (''# reference_time_offset_s '' @ CHR ''='' # CHR '' '' # v @ nl)" by simp
  show ?thesis
    unfolding l
    by (simp only: read_line_def read_header_def p k s if_True line_kind.case)
qed

lemma read_origin:
  assumes "plain v" "airports_city lib v = Some city"
  shows "read_line lib d (''# origin = '' @ v @ nl) = Inr (d\<lparr>log_origin_ICAO := v, log_origin := city\<rparr>)"
proof -
  have l: "''# origin = '' @ v @ nl = ''# origin '' @ CHR ''='' # CHR '' '' # v @ nl" by simp
  have k: "header_kind (''# origin '' @ CHR ''='' # CHR '' '' # v @ nl) = K_origin"
    using header_kind_key [of "''# origin ''" "CHR '' '' # v @ nl"] plainD [OF assms(1)]
    by (simp add: suffix_to_prefix nl_def)
  have s: "strip_context (''# origin '' @ CHR ''='' # CHR '' '' # v @ nl) = v"
    using strip_context_value [of "''# origin ''" v] plainD(1) [OF assms(1)] by simp
  have p: "prefix ''#'' (''# origin '' @ CHR ''='' # CHR '' '' # v @ nl)" by simp
  show ?thesis
    unfolding l
    by (simp only: read_line_def read_header_def p k s if_True line_kind.case assms(2) option.case)
qed

lemma read_destination:
  assumes "plain v" "airports_city lib v = Some city"
  shows "read_line lib d (''# destination = '' @ v @ nl) = Inr (d\<lparr>log_destination_ICAO := v, log_destination := city\<rparr>)"
proof -
  have l: "''# destination = '' @ v @ nl = ''# destination '' @ CHR ''='' # CHR '' '' # v @ nl" by simp
  have k: "header_kind (''# destination '' @ CHR ''='' # CHR '' '' # v @ nl) = K_destination"
    using header_kind_key [of "''# destination ''" "CHR '' '' # v @ nl"] plainD [OF assms(1)]
    by (simp add: suffix_to_prefix nl_def)
  have s: "strip_context (''# destination '' @ CHR ''='' # CHR '' '' # v @ nl) = v"
    using strip_context_value [of "''# destination ''" v] plainD(1) [OF assms(1)] by simp
  have p: "prefix ''#'' (''# destination '' @ CHR ''='' # CHR '' '' # v @ nl)" by simp
  show ?thesis
    unfolding l
    by (simp only: read_line_def read_header_def p k s if_True line_kind.case assms(2) option.case)
qed

lemma read_flight_number:
  assumes "plain v"
  shows "read_line lib d (''# flight_number = '' @ v @ nl) = Inr (d\<lparr>log_flight_number := v\<rparr>)"
proof -
  have l: "''# flight_number = '' @ v @ nl = ''# flight_number '' @ CHR ''='' # CHR '' '' # v @ nl" by simp
  have k: "header_kind (''# flight_number '' @ CHR ''='' # CHR '' '' # v @ nl) = K_flight_number"
    using header_kind_key [of "''# flight_number ''" "CHR '' '' # v @ nl"] plainD [OF assms(1)]
    by (simp add: suffix_to_prefix nl_def)
  have s: "strip_context (''# flight_number '' @ CHR ''='' # CHR '' '' # v @ nl) = v"
    using strip_context_value [of "''# flight_number ''" v] plainD(1) [OF assms(1)] by simp
  have p: "prefix ''#'' (''# flight_number '' @ CHR ''='' # CHR '' '' # v @ nl)" by simp
  show ?thesis
    unfolding l
    by (simp only: read_line_def read_header_def p k s if_True line_kind.case)
qed

lemma read_takeoff:
  assumes "plain v" "strptime lib v = Some t"
  shows "read_line lib d (''# takeoff_utc = '' @ v @ nl) = Inr (d\<lparr>log_takeoff := Some t, log_date := Some (date_of lib t)\<rparr>)"
proof -
  have l: "''# takeoff_utc = '' @ v @ nl = ''# takeoff_utc '' @ CHR ''='' # CHR '' '' # v @ nl" by simp
  have k: "header_kind (''# takeoff_utc '' @ CHR ''='' # CHR '' '' # v @ nl) = K_takeoff"
    using header_kind_key [of "''# takeoff_utc ''" "CHR '' '' # v @ nl"] plainD [OF assms(1)]
    by (simp add: suffix_to_prefix nl_def)
  have s: "strip_context (''# takeoff_utc '' @ CHR ''='' # CHR '' '' # v @ nl) = v"
    using strip_context_value [of "''# takeoff_utc ''" v] plainD(1) [OF assms(1)] by simp
  have p: "prefix ''#'' (''# takeoff_utc '' @ CHR ''='' # CHR '' '' # v @ nl)" by simp
  show ?thesis
    unfolding l
    by (simp only: read_line_def read_header_def p k s if_True line_kind.case assms(2) option.case)
qed

lemma read_landing:
  assumes "plain v" "strptime lib v = Some t"
  shows "read_line lib d (''# landing_utc = '' @ v @ nl) = Inr (d\<lparr>log_landing := Some t\<rparr>)"
proof -
  have l: "''# landing_utc = '' @ v @ nl = ''# landing_utc '' @ CHR ''='' # CHR '' '' # v @ nl" by simp
  have k: "header_kind (''# landing_utc '' @ CHR ''='' # CHR '' '' # v @ nl) = K_landing"
    using header_kind_key [of "''# landing_utc ''" "CHR '' '' # v @ nl"] plainD [OF assms(1)]
    by (simp add: suffix_to_prefix nl_def)
  have s: "strip_context (''# landing_utc '' @ CHR ''='' # CHR '' '' # v @ nl) = v"
    using strip_context_value [of "''# landing_utc ''" v] plainD(1) [OF assms(1)] by simp
  have p: "prefix ''#'' (''# landing_utc '' @ CHR ''='' # CHR '' '' # v @ nl)" by simp
  show ?thesis
    unfolding l
    by (simp only: read_line_def read_header_def p k s if_True line_kind.case assms(2) option.case)
qed

lemma read_scaling:
  assumes "plain v" "to_float lib v = Some x"
  shows "read_line lib d (''# reference_scaling_beta = '' @ v @ nl) = Inr (d\<lparr>log_scaling_factor := x\<rparr>)"
proof -
  have l: "''# reference_scaling_beta = '' @ v @ nl = ''# reference_scaling_beta '' @ CHR ''='' # CHR '' '' # v @ nl" by simp
  have k: "header_kind (''# reference_scaling_beta '' @ CHR ''='' # CHR '' '' # v @ nl) = K_scaling"
    using header_kind_key [of "''# reference_scaling_beta ''" "CHR '' '' # v @ nl"] plainD [OF assms(1)]
    by (simp add: suffix_to_prefix nl_def)
  have s: "strip_context (''# reference_scaling_beta '' @ CHR ''='' # CHR '' '' # v @ nl) = v"
    using strip_context_value [of "''# reference_scaling_beta ''" v] plainD(1) [OF assms(1)] by simp
  have p: "prefix ''#'' (''# reference_scaling_beta '' @ CHR ''='' # CHR '' '' # v @ nl)" by simp
  show ?thesis
    unfolding l
    by (simp only: read_line_def read_header_def p k s if_True line_kind.case py_float_def py_strip_trimmed(1) [OF plainD(1) [OF assms(1)]] assms(2) option.case)
qed

lemma read_scaling_none:
  assumes "plain v" "to_float lib v = None"
  shows "read_line lib d (''# reference_scaling_beta = '' @ v @ nl) = Inr (d\<lparr>log_scaling_factor := 0\<rparr>)"
proof -
  have l: "''# reference_scaling_beta = '' @ v @ nl = ''# reference_scaling_beta '' @ CHR ''='' # CHR '' '' # v @ nl" by simp
  have k: "header_kind (''# reference_scaling_beta '' @ CHR ''='' # CHR '' '' # v @ nl) = K_scaling"
    using header_kind_key [of "''# reference_scaling_beta ''" "CHR '' '' # v @ nl"] plainD [OF assms(1)]
    by (simp add: suffix_to_prefix nl_def)
  have s: "strip_context (''# reference_scaling_beta '' @ CHR ''='' # CHR '' '' # v @ nl) = v"
    using strip_context_value [of "''# reference_scaling_beta ''" v] plainD(1) [OF assms(1)] by simp
  have p: "prefix ''#'' (''# reference_scaling_beta '' @ CHR ''='' # CHR '' '' # v @ nl)" by simp
  show ?thesis
    unfolding l
    by (simp only: read_line_def read_header_def p k s if_True line_kind.case py_float_def py_strip_trimmed(1) [OF plainD(1) [OF assms(1)]] assms(2) option.case)
qed

lemma read_citizen_id:
  assumes "plain v"
  shows "read_line lib d (''# citizen_id = '' @ v @ nl) = Inr (d\<lparr>log_citizen_id := v\<rparr>)"
proof -
  have l: "''# citizen_id = '' @ v @ nl = ''# citizen_id '' @ CHR ''='' # CHR '' '' # v @ nl" by simp
  have k: "header_kind (''# citizen_id '' @ CHR ''='' # CHR '' '' # v @ nl) = K_citizen"
    using header_kind_key [of "''# citizen_id ''" "CHR '' '' # v @ nl"] plainD [OF assms(1)]
    by (simp add: suffix_to_prefix nl_def)
  have s: "strip_context (''# citizen_id '' @ CHR ''='' # CHR '' '' # v @ nl) = v"
    using strip_context_value [of "''# citizen_id ''" v] plainD(1) [OF assms(1)] by simp
  have p: "prefix ''#'' (''# citizen_id '' @ CHR ''='' # CHR '' '' # v @ nl)" by simp
  show ?thesis
    unfolding l
    by (simp only: read_line_def read_header_def p k s if_True line_kind.case)
qed

lemma read_timestamps:
  assumes "plain v"
  shows "read_line lib d (''# detector_timestamps = '' @ v @ nl) = Inr (d\<lparr>log_timestamps := v\<rparr>)"
proof -
  have l: "''# detector_timestamps = '' @ v @ nl = ''# detector_timestamps '' @ CHR ''='' # CHR '' '' # v @ nl" by simp
  have k: "header_kind (''# detector_timestamps '' @ CHR ''='' # CHR '' '' # v @ nl) = K_timestamps"
    using header_kind_key [of "''# detector_timestamps ''" "CHR '' '' # v @ nl"] plainD [OF assms(1)]
    by (simp add: suffix_to_prefix nl_def)
  have s: "strip_context (''# detector_timestamps '' @ CHR ''='' # CHR '' '' # v @ nl) = v"
    using strip_context_value [of "''# detector_timestamps ''" v] plainD(1) [OF assms(1)] by simp
  have p: "prefix ''#'' (''# detector_timestamps '' @ CHR ''='' # CHR '' '' # v @ nl)" by simp
  show ?thesis
    unfolding l
    by (simp only: read_line_def read_header_def p k s if_True line_kind.case)
qed

lemma read_fixed:
  "read_line lib d (''# format = processedCOA-v1'' @ nl) = Inr d"
  "read_line lib d (''# data delimiter = comma'' @ nl) = Inr d"
  "read_line lib d (''#'' @ nl) = Inr d"
  "read_line lib d (''# detector_model = ???'' @ nl) = Inr d"
  "read_line lib d (''# detector_native_quantity = cnt_5s'' @ nl) = Inr d"
  "read_line lib d (''# cnt_1min_source = original'' @ nl) = Inr d"
  "read_line lib d (''# cnt_5s_source = original'' @ nl) = Inr d"
  "read_line lib d (''# detector_native_quantity = event_timestamps'' @ nl) = Inr d"
  "read_line lib d (''# cnt_1min_source = derived'' @ nl) = Inr d"
  "read_line lib d (''# cnt_5s_source = derived'' @ nl) = Inr d"
  "read_line lib d (''# detector_native_quantity = average_cps_over_1_minute'' @ nl) = Inr d"
  "read_line lib d (''# detector_native_quantity = cnt_1mn'' @ nl) = Inr d"
  "read_line lib d (''# processing_pipeline = ???'' @ nl) = Inr d"
  "read_line lib d (''# reference_id = cari7a'' @ nl) = Inr d"
  "read_line lib d (''# reference_model = CARI-7A'' @ nl) = Inr d"
  "read_line lib d (''# reference_quantity = H*(10)_total-neutron'' @ nl) = Inr d"
  "read_line lib d (''# reference_alignment_method = time_offset_max_r2'' @ nl) = Inr d"
  "read_line lib d (''# reference_scaling_units = '' @ micro @ ''Sv/h / CPM'' @ nl) = Inr d"
  "read_line lib d (''# simulation_version = ???'' @ nl) = Inr d"
  "read_line lib d (''# simulation_total = H*10_total'' @ nl) = Inr d"
  "read_line lib d (''# simulation_neutron = H*10_neutron'' @ nl) = Inr d"
  "read_line lib d (''# simulation_unit = '' @ micro @ ''Sv/h'' @ nl) = Inr d"
  "read_line lib d (''# reference_id = ???'' @ nl) = Inr d"
  "read_line lib d (''# reference_model = ???'' @ nl) = Inr d"
  "read_line lib d (''# reference_quantity = ???'' @ nl) = Inr d"
  "read_line lib d (''# reference_alignment_method = ???'' @ nl) = Inr d"
  "read_line lib d (''# reference_scaling_units = ???'' @ nl) = Inr d"
  "read_line lib d (''# simulation_model = ???'' @ nl) = Inr d"
  "read_line lib d (''# simulation_total = ???'' @ nl) = Inr d"
  "read_line lib d (''# simulation_neutron = ???'' @ nl) = Inr d"
  "read_line lib d (''# simulation_unit = ???'' @ nl) = Inr d"
  "read_line lib d (''# airport_code_type = ICAO'' @ nl) = Inr d"
  "read_line lib d (''# timestamp_format = UTC_ISO8601'' @ nl) = Inr d"
  "read_line lib d (''# latitude_unit = degrees'' @ nl) = Inr d"
  "read_line lib d (''# longitude_unit = degrees'' @ nl) = Inr d"
  "read_line lib d (''# altitude_unit = metres'' @ nl) = Inr d"
  "read_line lib d (''# columns = timestamp_utc, cnt_1min, cnt_5s, latitude, longitude, altitude, simulation_total, simulation_neutron'' @ nl) = Inr d"
  "read_line lib d (''# columns = timestamp_utc, cnt_1min, cnt_5s, latitude, longitude, altitude'' @ nl) = Inr d"
  by (simp_all add: read_line_def read_header_def header_kind_def nl_def micro_def sublist_Cons_right)

lemma read_simulation_model:
  "read_line lib d (''# simulation_model = CARI-7A'' @ nl) = Inr (d\<lparr>log_reference := Some ([], [])\<rparr>)"
  by (simp add: read_line_def read_header_def header_kind_def nl_def sublist_Cons_right)

lemma text_line_fixed:
  "text_line (''# format = processedCOA-v1'' @ nl)"
  "text_line (''# data delimiter = comma'' @ nl)"
  "text_line (''#'' @ nl)"
  "text_line (''# detector_model = ???'' @ nl)"
  "text_line (''# detector_native_quantity = cnt_5s'' @ nl)"
  "text_line (''# cnt_1min_source = original'' @ nl)"
  "text_line (''# cnt_5s_source = original'' @ nl)"
  "text_line (''# detector_native_quantity = event_timestamps'' @ nl)"
  "text_line (''# cnt_1min_source = derived'' @ nl)"
  "text_line (''# cnt_5s_source = derived'' @ nl)"
  "text_line (''# detector_native_quantity = average_cps_over_1_minute'' @ nl)"
  "text_line (''# detector_native_quantity = cnt_1mn'' @ nl)"
  "text_line (''# processing_pipeline = ???'' @ nl)"
  "text_line (''# reference_id = cari7a'' @ nl)"
  "text_line (''# reference_model = CARI-7A'' @ nl)"
  "text_line (''# reference_quantity = H*(10)_total-neutron'' @ nl)"
  "text_line (''# reference_alignment_method = time_offset_max_r2'' @ nl)"
  "text_line (''# reference_scaling_units = '' @ micro @ ''Sv/h / CPM'' @ nl)"
  "text_line (''# simulation_version = ???'' @ nl)"
  "text_line (''# simulation_total = H*10_total'' @ nl)"
  "text_line (''# simulation_neutron = H*10_neutron'' @ nl)"
  "text_line (''# simulation_unit = '' @ micro @ ''Sv/h'' @ nl)"
  "text_line (''# reference_id = ???'' @ nl)"
  "text_line (''# reference_model = ???'' @ nl)"
  "text_line (''# reference_quantity = ???'' @ nl)"
  "text_line (''# reference_alignment_method = ???'' @ nl)"
  "text_line (''# reference_scaling_units = ???'' @ nl)"
  "text_line (''# simulation_model = ???'' @ nl)"
  "text_line (''# simulation_total = ???'' @ nl)"
  "text_line (''# simulation_neutron = ???'' @ nl)"
  "text_line (''# simulation_unit = ???'' @ nl)"
  "text_line (''# airport_code_type = ICAO'' @ nl)"
  "text_line (''# timestamp_format = UTC_ISO8601'' @ nl)"
  "text_line (''# latitude_unit = degrees'' @ nl)"
  "text_line (''# longitude_unit = degrees'' @ nl)"
  "text_line (''# altitude_unit = metres'' @ nl)"
  "text_line (''# columns = timestamp_utc, cnt_1min, cnt_5s, latitude, longitude, altitude, simulation_total, simulation_neutron'' @ nl)"
  "text_line (''# columns = timestamp_utc, cnt_1min, cnt_5s, latitude, longitude, altitude'' @ nl)"
  "text_line (''# simulation_model = CARI-7A'' @ nl)"
  by (simp_all add: text_line_def nl_def micro_def)

lemma text_line_value:
  assumes "CHR 0x0A \<notin> set p" "CHR 0x0D \<notin> set p" "plain v"
  shows "text_line (p @ v @ nl)"
  using assms plainD [OF assms(3)] by (simp add: text_line_def nl_def butlast_append)

lemma plain_unknown: "plain ''???''"
  by (simp add: plain_def plain_char_def trimmed_def is_space_def)

lemma read_unknown:
  "read_line lib d (''# reference_time_offset_s = ???'' @ nl) = Inr (d\<lparr>log_time_offset := ''???''\<rparr>)"
  "read_line lib d (''# reference_fit_r2 = ???'' @ nl) = Inr (d\<lparr>log_R2 := ''???''\<rparr>)"
  "to_float lib ''???'' = None \<Longrightarrow>
     read_line lib d (''# reference_scaling_beta = ???'' @ nl) = Inr (d\<lparr>log_scaling_factor := 0\<rparr>)"
  using read_time_offset [OF plain_unknown, of lib d] read_fit_r2 [OF plain_unknown, of lib d]
    read_scaling_none [OF plain_unknown, of lib d]
  by simp_all

lemma text_line_unknown:
  "text_line (''# reference_time_offset_s = ???'' @ nl)"
  "text_line (''# reference_fit_r2 = ???'' @ nl)"
  "text_line (''# reference_scaling_beta = ???'' @ nl)"
  by (simp_all add: text_line_def nl_def)

lemma read_device_lines: "read_lines lib d (device_lines s) = Inr d"
  by (simp add: device_lines_def read_fixed del: append.simps)

lemma text_device_lines: "\<forall>l \<in> set (device_lines s). text_line l"
  by (auto simp add: device_lines_def text_line_fixed simp del: append.simps)

lemma read_reference_lines_some:
  assumes "log_reference r \<noteq> None" "plain (log_time_offset r)" "plain (log_R2 r)"
    and "plain (fmt_e4 lib (log_scaling_factor r))"
    and "to_float lib (fmt_e4 lib (log_scaling_factor r)) = Some x"
  shows "read_lines lib d (reference_lines lib r) =
           Inr (d\<lparr>log_time_offset := log_time_offset r, log_scaling_factor := x, log_R2 := log_R2 r,
                  log_reference := Some ([], [])\<rparr>)"
  using assms(1)
  by (simp add: reference_lines_def read_fixed read_simulation_model
        read_time_offset [OF assms(2)] read_fit_r2 [OF assms(3)] read_scaling [OF assms(4,5)]
      del: append.simps)

lemma read_reference_lines_none:
  assumes "log_reference r = None" "to_float lib ''???'' = None"
    and "0 < log_scaling_factor r \<Longrightarrow> plain (fmt_e4 lib (log_scaling_factor r))"
    and "0 < log_scaling_factor r \<Longrightarrow> to_float lib (fmt_e4 lib (log_scaling_factor r)) = Some x"
  shows "read_lines lib d (reference_lines lib r) =
           Inr (d\<lparr>log_time_offset := ''???'',
                  log_scaling_factor := (if 0 < log_scaling_factor r then x else 0), log_R2 := ''???''\<rparr>)"
proof (cases "0 < log_scaling_factor r")
  case True
  show ?thesis
    using assms(1) True
    by (simp add: reference_lines_def read_fixed read_unknown(1,2)
          read_scaling [OF assms(3) [OF True] assms(4) [OF True]]
        del: append.simps)
next
  case False
  show ?thesis
    using assms(1) False
    by (simp add: reference_lines_def read_fixed read_unknown(1,2) read_unknown(3) [OF assms(2)]
        del: append.simps)
qed

lemma text_reference_lines:
  assumes "log_reference r \<noteq> None \<Longrightarrow> plain (log_time_offset r)"
    and "log_reference r \<noteq> None \<Longrightarrow> plain (log_R2 r)"
    and "log_reference r \<noteq> None \<or> 0 < log_scaling_factor r \<Longrightarrow> plain (fmt_e4 lib (log_scaling_factor r))"
  shows "\<forall>l \<in> set (reference_lines lib r). text_line l"
  using assms
  by (auto simp add: reference_lines_def text_line_fixed text_line_unknown text_line_value
        simp del: append.simps)

lemma read_flight_lines:
  assumes "plain (log_origin_ICAO r)" "airports_city lib (log_origin_ICAO r) = Some oc"
    and "plain (log_destination_ICAO r)" "airports_city lib (log_destination_ICAO r) = Some dc"
    and "plain (log_flight_number r)" "plain (log_timestamps r)" "plain (log_citizen_id r)"
    and "plain (strftime lib t_off)" "strptime lib (strftime lib t_off) = Some t_off"
    and "plain (strftime lib t_land)" "strptime lib (strftime lib t_land) = Some t_land"
  shows "read_lines lib d (flight_lines lib r t_off t_land) =
           Inr (d\<lparr>log_origin_ICAO := log_origin_ICAO r, log_origin := oc,
                  log_destination_ICAO := log_destination_ICAO r, log_destination := dc,
                  log_flight_number := log_flight_number r,
                  log_takeoff := Some t_off, log_date := Some (date_of lib t_off),
                  log_landing := Some t_land, log_timestamps := log_timestamps r,
                  log_citizen_id := log_citizen_id r\<rparr>)"
  by (simp add: flight_lines_def read_fixed
        read_origin [OF assms(1,2)] read_destination [OF assms(3,4)]
        read_flight_number [OF assms(5)] read_timestamps [OF assms(6)]
        read_citizen_id [OF assms(7)] read_takeoff [OF assms(8,9)] read_landing [OF assms(10,11)]
      del: append.simps)

lemma text_flight_lines:
  assumes "plain (log_origin_ICAO r)" "plain (log_destination_ICAO r)"
    and "plain (log_flight_number r)" "plain (log_timestamps r)" "plain (log_citizen_id r)"
    and "plain (strftime lib t_off)" "plain (strftime lib t_land)"
  shows "\<forall>l \<in> set (flight_lines lib r t_off t_land). text_line l"
  using assms
  by (auto simp add: flight_lines_def text_line_fixed text_line_value simp del: append.simps)

lemma row_line_ok:
  assumes "rows_in_range r" "i < length (log_time r)"
  shows "row_line lib r i = Inr (row_text lib r i)"
  using assms
  by (auto simp: rows_in_range_def row_line_def row_text_def Let_def split: option.splits)

lemma row_lines_ok:
  assumes "rows_in_range r" "\<forall>i \<in> set is. i < length (log_time r)"
  shows "row_lines lib r is = Inr (map (row_text lib r) is)"
  using assms(2) by (induction "is") (simp_all add: row_line_ok [OF assms(1)])

lemma not_hash_prefix:
  assumes "\<not> prefix ''#'' f"
  shows "\<not> prefix ''#'' (f @ CHR '','' # rest)"
  using assms by (cases f) simp_all

lemma split_row6:
  assumes "CHR '','' \<notin> set f0" "CHR '','' \<notin> set f1" "CHR '','' \<notin> set f2"
    "CHR '','' \<notin> set f3" "CHR '','' \<notin> set f4" "CHR '','' \<notin> set f5"
  shows "py_split CHR '','' [] (py_join '', '' [f0, f1, f2, f3, f4, f5] @ nl) =
           [f0, CHR '' '' # f1, CHR '' '' # f2, CHR '' '' # f3, CHR '' '' # f4,
            CHR '' '' # f5 @ nl]"
proof -
  have last: "py_split CHR '','' [CHR '' ''] (f5 @ nl) = [CHR '' '' # f5 @ nl]"
    using assms(6) py_split_last [of "f5 @ nl" "[CHR '' '']"] by (simp add: nl_def)
  show ?thesis
    using assms(1-5) by (simp add: py_join_def py_split_field last)
qed

lemma split_row8:
  assumes "CHR '','' \<notin> set f0" "CHR '','' \<notin> set f1" "CHR '','' \<notin> set f2"
    "CHR '','' \<notin> set f3" "CHR '','' \<notin> set f4" "CHR '','' \<notin> set f5"
    "CHR '','' \<notin> set f6" "CHR '','' \<notin> set f7"
  shows "py_split CHR '','' []
           (py_join '', '' [f0, f1, f2, f3, f4, f5] @ ('', '' @ py_join '', '' [f6, f7]) @ nl) =
           [f0, CHR '' '' # f1, CHR '' '' # f2, CHR '' '' # f3, CHR '' '' # f4,
            CHR '' '' # f5, CHR '' '' # f6, CHR '' '' # f7 @ nl]"
proof -
  have last: "py_split CHR '','' [CHR '' ''] (f7 @ nl) = [CHR '' '' # f7 @ nl]"
    using assms(8) py_split_last [of "f7 @ nl" "[CHR '' '']"] by (simp add: nl_def)
  show ?thesis
    using assms(1-7) by (simp add: py_join_def py_split_field last)
qed

lemma read_row6:
  assumes "log_reference d = None"
    and "field f0" "\<not> prefix ''#'' f0" "strptime lib f0 = Some t"
    and "field f1" "to_int lib f1 = Some c1"
    and "field f2" "to_int lib f2 = Some c5"
    and "field f3" "to_float lib f3 = Some la"
    and "field f4" "to_float lib f4 = Some lo"
    and "field f5" "to_float lib f5 = Some al"
  shows "read_line lib d (py_join '', '' [f0, f1, f2, f3, f4, f5] @ nl) =
           Inr (d\<lparr>log_time := log_time d @ [t], log_cnt_1mn := log_cnt_1mn d @ [c1],
                  log_cnt_5sc := log_cnt_5sc d @ [c5], log_lat := log_lat d @ [la],
                  log_lon := log_lon d @ [lo], log_alt := log_alt d @ [al]\<rparr>)"
proof -
  have np: "\<not> prefix ''#'' (py_join '', '' [f0, f1, f2, f3, f4, f5] @ nl)"
    using not_hash_prefix [OF assms(3)] by (simp add: py_join_def)
  note sp = split_row6 [OF fieldD(2) [OF assms(2)] fieldD(2) [OF assms(5)]
      fieldD(2) [OF assms(7)] fieldD(2) [OF assms(9)] fieldD(2) [OF assms(11)]
      fieldD(2) [OF assms(13)]]
  note st = py_strip_trimmed [OF plainD(1) [OF fieldD(1) [OF assms(2)]]] py_strip_trimmed [OF plainD(1) [OF fieldD(1) [OF assms(5)]]]
      py_strip_trimmed [OF plainD(1) [OF fieldD(1) [OF assms(7)]]] py_strip_trimmed [OF plainD(1) [OF fieldD(1) [OF assms(9)]]]
      py_strip_trimmed [OF plainD(1) [OF fieldD(1) [OF assms(11)]]] py_strip_trimmed [OF plainD(1) [OF fieldD(1) [OF assms(13)]]]
  show ?thesis
    unfolding read_line_def read_row_def
    by (simp only: np if_False sp Let_def) 
       (simp add: st py_int_def py_float_def assms(1,4,6,8,10,12,14))
qed

lemma read_row8:
  assumes "log_reference d = Some (ct, tn)"
    and "field f0" "\<not> prefix ''#'' f0" "strptime lib f0 = Some t"
    and "field f1" "to_int lib f1 = Some c1"
    and "field f2" "to_int lib f2 = Some c5"
    and "field f3" "to_float lib f3 = Some la"
    and "field f4" "to_float lib f4 = Some lo"
    and "field f5" "to_float lib f5 = Some al"
    and "field f6" "to_float lib f6 = Some tot"
    and "field f7" "to_float lib f7 = Some neu"
  shows "read_line lib d
           (py_join '', '' [f0, f1, f2, f3, f4, f5] @ ('', '' @ py_join '', '' [f6, f7]) @ nl) =
           Inr (d\<lparr>log_time := log_time d @ [t], log_cnt_1mn := log_cnt_1mn d @ [c1],
                  log_cnt_5sc := log_cnt_5sc d @ [c5], log_lat := log_lat d @ [la],
                  log_lon := log_lon d @ [lo], log_alt := log_alt d @ [al],
                  log_reference := Some (ct @ [tot], tn @ [tot - neu])\<rparr>)"
proof -
  have np: "\<not> prefix ''#''
      (py_join '', '' [f0, f1, f2, f3, f4, f5] @ ('', '' @ py_join '', '' [f6, f7]) @ nl)"
    using not_hash_prefix [OF assms(3)] by (simp add: py_join_def)
  note sp = split_row8 [OF fieldD(2) [OF assms(2)] fieldD(2) [OF assms(5)]
      fieldD(2) [OF assms(7)] fieldD(2) [OF assms(9)] fieldD(2) [OF assms(11)]
      fieldD(2) [OF assms(13)] fieldD(2) [OF assms(15)] fieldD(2) [OF assms(17)]]
  note st = py_strip_trimmed [OF plainD(1) [OF fieldD(1) [OF assms(2)]]] py_strip_trimmed [OF plainD(1) [OF fieldD(1) [OF assms(5)]]]
      py_strip_trimmed [OF plainD(1) [OF fieldD(1) [OF assms(7)]]] py_strip_trimmed [OF plainD(1) [OF fieldD(1) [OF assms(9)]]]
      py_strip_trimmed [OF plainD(1) [OF fieldD(1) [OF assms(11)]]] py_strip_trimmed [OF plainD(1) [OF fieldD(1) [OF assms(13)]]]
      py_strip_trimmed [OF plainD(1) [OF fieldD(1) [OF assms(15)]]] py_strip_trimmed [OF plainD(1) [OF fieldD(1) [OF assms(17)]]]
  show ?thesis
    unfolding read_line_def read_row_def
    by (simp only: np if_False sp Let_def) 
       (simp add: st py_int_def py_float_def assms(1,4,6,8,10,12,14,16,18))
qed

lemma text_line_row:
  assumes "field f0" "field f1" "field f2" "field f3" "field f4" "field f5"
  shows "text_line (py_join '', '' [f0, f1, f2, f3, f4, f5] @ nl)"
  using plainD(3,4) [OF fieldD(1) [OF assms(1)]] plainD(3,4) [OF fieldD(1) [OF assms(2)]] plainD(3,4) [OF fieldD(1) [OF assms(3)]]
    plainD(3,4) [OF fieldD(1) [OF assms(4)]] plainD(3,4) [OF fieldD(1) [OF assms(5)]] plainD(3,4) [OF fieldD(1) [OF assms(6)]]
  by (simp add: text_line_def py_join_def nl_def butlast_append)

lemma text_line_row8:
  assumes "field f0" "field f1" "field f2" "field f3" "field f4" "field f5" "field f6" "field f7"
  shows "text_line (py_join '', '' [f0, f1, f2, f3, f4, f5] @ ('', '' @ py_join '', '' [f6, f7]) @ nl)"
  using plainD(3,4) [OF fieldD(1) [OF assms(1)]] plainD(3,4) [OF fieldD(1) [OF assms(2)]] plainD(3,4) [OF fieldD(1) [OF assms(3)]]
    plainD(3,4) [OF fieldD(1) [OF assms(4)]] plainD(3,4) [OF fieldD(1) [OF assms(5)]] plainD(3,4) [OF fieldD(1) [OF assms(6)]]
    plainD(3,4) [OF fieldD(1) [OF assms(7)]] plainD(3,4) [OF fieldD(1) [OF assms(8)]]
  by (simp add: text_line_def py_join_def nl_def butlast_append)

lemma lib_rendersD:
  assumes "lib_renders lib r t_off t_land"
  shows "t \<in> set (t_off # t_land # log_time r) \<Longrightarrow> field (strftime lib t)"
    and "t \<in> set (t_off # t_land # log_time r) \<Longrightarrow> \<not> prefix ''#'' (strftime lib t)"
    and "t \<in> set (t_off # t_land # log_time r) \<Longrightarrow> strptime lib (strftime lib t) = Some t"
    and "n \<in> set (log_cnt_1mn r) \<union> set (log_cnt_5sc r) \<Longrightarrow> field (fmt_int lib n)"
    and "n \<in> set (log_cnt_1mn r) \<union> set (log_cnt_5sc r) \<Longrightarrow> to_int lib (fmt_int lib n) = Some n"
    and "x \<in> set (log_lat r) \<union> set (log_lon r) \<Longrightarrow> field (fmt_f5 lib x)"
    and "x \<in> set (log_lat r) \<union> set (log_lon r) \<Longrightarrow> to_float lib (fmt_f5 lib x) = Some (round_dec 5 x)"
    and "x \<in> set (log_alt r) \<Longrightarrow> field (fmt_f0 lib x)"
    and "x \<in> set (log_alt r) \<Longrightarrow> to_float lib (fmt_f0 lib x) = Some (round_dec 0 x)"
    and "x \<in> set (dose_values r) \<Longrightarrow> field (fmt_e4 lib x)"
    and "x \<in> set (dose_values r) \<Longrightarrow> to_float lib (fmt_e4 lib x) = Some (round_sig5 x)"
    and "to_float lib ''???'' = None"
  using assms
  unfolding lib_renders_def renders_time_def renders_count_def renders_position_def
    renders_altitude_def renders_dose_def list_all_iff
  by auto

lemma read_rows_none:
  assumes ref: "log_reference r = None" and rng: "rows_in_range r"
    and lr: "lib_renders lib r t_off t_land"
  shows "\<lbrakk>\<forall>i \<in> set is. i < length (log_time r); log_reference d = None\<rbrakk> \<Longrightarrow>
         read_lines lib d (map (row_text lib r) is) =
           Inr (d\<lparr>log_time := log_time d @ map (\<lambda>i. log_time r ! i) is,
                  log_cnt_1mn := log_cnt_1mn d @ map (\<lambda>i. log_cnt_1mn r ! i) is,
                  log_cnt_5sc := log_cnt_5sc d @ map (\<lambda>i. log_cnt_5sc r ! i) is,
                  log_lat := log_lat d @ map (\<lambda>i. round_dec 5 (log_lat r ! i)) is,
                  log_lon := log_lon d @ map (\<lambda>i. round_dec 5 (log_lon r ! i)) is,
                  log_alt := log_alt d @ map (\<lambda>i. round_dec 0 (log_alt r ! i)) is\<rparr>)"
proof (induction "is" arbitrary: d)
  case Nil
  show ?case by simp
next
  case (Cons i "is")
  from Cons.prems(1) have i: "i < length (log_time r)" by simp
  with rng have len: "i < length (log_cnt_1mn r)" "i < length (log_cnt_5sc r)" "i < length (log_lat r)"
      "i < length (log_lon r)" "i < length (log_alt r)"
    by (simp_all add: rows_in_range_def)
  have m: "log_time r ! i \<in> set (t_off # t_land # log_time r)"
      "log_cnt_1mn r ! i \<in> set (log_cnt_1mn r) \<union> set (log_cnt_5sc r)"
      "log_cnt_5sc r ! i \<in> set (log_cnt_1mn r) \<union> set (log_cnt_5sc r)"
      "log_lat r ! i \<in> set (log_lat r) \<union> set (log_lon r)"
      "log_lon r ! i \<in> set (log_lat r) \<union> set (log_lon r)"
      "log_alt r ! i \<in> set (log_alt r)"
    using i len by simp_all
  have rt: "row_text lib r i =
      py_join '', '' [strftime lib (log_time r ! i), fmt_int lib (log_cnt_1mn r ! i),
        fmt_int lib (log_cnt_5sc r ! i), fmt_f5 lib (log_lat r ! i), fmt_f5 lib (log_lon r ! i),
        fmt_f0 lib (log_alt r ! i)] @ nl"
    by (simp add: row_text_def ref)
  define d1 where "d1 = d\<lparr>log_time := log_time d @ [log_time r ! i], log_cnt_1mn := log_cnt_1mn d @ [log_cnt_1mn r ! i],
      log_cnt_5sc := log_cnt_5sc d @ [log_cnt_5sc r ! i], log_lat := log_lat d @ [round_dec 5 (log_lat r ! i)],
      log_lon := log_lon d @ [round_dec 5 (log_lon r ! i)], log_alt := log_alt d @ [round_dec 0 (log_alt r ! i)]\<rparr>"
  have step: "read_line lib d (row_text lib r i) = Inr d1"
    unfolding rt d1_def
    by (rule read_row6 [OF Cons.prems(2)
          lib_rendersD(1) [OF lr m(1)] lib_rendersD(2) [OF lr m(1)] lib_rendersD(3) [OF lr m(1)]
          lib_rendersD(4) [OF lr m(2)] lib_rendersD(5) [OF lr m(2)]
          lib_rendersD(4) [OF lr m(3)] lib_rendersD(5) [OF lr m(3)]
          lib_rendersD(6) [OF lr m(4)] lib_rendersD(7) [OF lr m(4)]
          lib_rendersD(6) [OF lr m(5)] lib_rendersD(7) [OF lr m(5)]
          lib_rendersD(8) [OF lr m(6)] lib_rendersD(9) [OF lr m(6)]])
  have d1_ref: "log_reference d1 = None" using Cons.prems(2) by (simp add: d1_def)
  have rest: "\<forall>i \<in> set is. i < length (log_time r)" using Cons.prems(1) by simp
  have "read_lines lib d (map (row_text lib r) (i # is)) = read_lines lib d1 (map (row_text lib r) is)"
    by (simp add: step)
  also note Cons.IH [OF rest d1_ref]
  finally show ?case by (simp add: d1_def)
qed

lemma read_rows_some:
  assumes ref: "log_reference r = Some (ct, tn)" and rng: "rows_in_range r"
    and lr: "lib_renders lib r t_off t_land"
  shows "\<lbrakk>\<forall>i \<in> set is. i < length (log_time r); log_reference d = Some (a, b)\<rbrakk> \<Longrightarrow>
         read_lines lib d (map (row_text lib r) is) =
           Inr (d\<lparr>log_time := log_time d @ map (\<lambda>i. log_time r ! i) is,
                  log_cnt_1mn := log_cnt_1mn d @ map (\<lambda>i. log_cnt_1mn r ! i) is,
                  log_cnt_5sc := log_cnt_5sc d @ map (\<lambda>i. log_cnt_5sc r ! i) is,
                  log_lat := log_lat d @ map (\<lambda>i. round_dec 5 (log_lat r ! i)) is,
                  log_lon := log_lon d @ map (\<lambda>i. round_dec 5 (log_lon r ! i)) is,
                  log_alt := log_alt d @ map (\<lambda>i. round_dec 0 (log_alt r ! i)) is,
                  log_reference :=
                    Some (a @ map (\<lambda>i. round_sig5 (ct ! i)) is,
                          b @ map (\<lambda>i. round_sig5 (ct ! i) - round_sig5 (ct ! i - tn ! i)) is)\<rparr>)"
proof (induction "is" arbitrary: d a b)
  case Nil
  then show ?case by simp
next
  case (Cons i "is")
  from Cons.prems(1) have i: "i < length (log_time r)" by simp
  with rng ref have len: "i < length (log_cnt_1mn r)" "i < length (log_cnt_5sc r)" "i < length (log_lat r)"
      "i < length (log_lon r)" "i < length (log_alt r)" "i < length ct" "i < length tn"
    by (simp_all add: rows_in_range_def)
  have "map2 (\<lambda>c n. c - n) ct tn ! i = ct ! i - tn ! i" using len by simp
  then have "ct ! i - tn ! i \<in> set (map2 (\<lambda>c n. c - n) ct tn)"
    using len by (metis length_map length_zip min_less_iff_conj nth_mem)
  then have m: "log_time r ! i \<in> set (t_off # t_land # log_time r)"
      "log_cnt_1mn r ! i \<in> set (log_cnt_1mn r) \<union> set (log_cnt_5sc r)"
      "log_cnt_5sc r ! i \<in> set (log_cnt_1mn r) \<union> set (log_cnt_5sc r)"
      "log_lat r ! i \<in> set (log_lat r) \<union> set (log_lon r)"
      "log_lon r ! i \<in> set (log_lat r) \<union> set (log_lon r)"
      "log_alt r ! i \<in> set (log_alt r)"
      "ct ! i \<in> set (dose_values r)"
      "ct ! i - tn ! i \<in> set (dose_values r)"
    using i len by (simp_all add: dose_values_def ref)
  have rt: "row_text lib r i =
      py_join '', '' [strftime lib (log_time r ! i), fmt_int lib (log_cnt_1mn r ! i),
        fmt_int lib (log_cnt_5sc r ! i), fmt_f5 lib (log_lat r ! i), fmt_f5 lib (log_lon r ! i),
        fmt_f0 lib (log_alt r ! i)]
      @ ('', '' @ py_join '', '' [fmt_e4 lib (ct ! i), fmt_e4 lib (ct ! i - tn ! i)]) @ nl"
    by (simp add: row_text_def ref)
  define d1 where "d1 = d\<lparr>log_time := log_time d @ [log_time r ! i], log_cnt_1mn := log_cnt_1mn d @ [log_cnt_1mn r ! i],
      log_cnt_5sc := log_cnt_5sc d @ [log_cnt_5sc r ! i], log_lat := log_lat d @ [round_dec 5 (log_lat r ! i)],
      log_lon := log_lon d @ [round_dec 5 (log_lon r ! i)], log_alt := log_alt d @ [round_dec 0 (log_alt r ! i)],
      log_reference := Some (a @ [round_sig5 (ct ! i)],
                         b @ [round_sig5 (ct ! i) - round_sig5 (ct ! i - tn ! i)])\<rparr>"
  have step: "read_line lib d (row_text lib r i) = Inr d1"
    unfolding rt d1_def
    by (rule read_row8 [OF Cons.prems(2)
          lib_rendersD(1) [OF lr m(1)] lib_rendersD(2) [OF lr m(1)] lib_rendersD(3) [OF lr m(1)]
          lib_rendersD(4) [OF lr m(2)] lib_rendersD(5) [OF lr m(2)]
          lib_rendersD(4) [OF lr m(3)] lib_rendersD(5) [OF lr m(3)]
          lib_rendersD(6) [OF lr m(4)] lib_rendersD(7) [OF lr m(4)]
          lib_rendersD(6) [OF lr m(5)] lib_rendersD(7) [OF lr m(5)]
          lib_rendersD(8) [OF lr m(6)] lib_rendersD(9) [OF lr m(6)]
          lib_rendersD(10) [OF lr m(7)] lib_rendersD(11) [OF lr m(7)]
          lib_rendersD(10) [OF lr m(8)] lib_rendersD(11) [OF lr m(8)]])
  have d1_ref: "log_reference d1 = Some (a @ [round_sig5 (ct ! i)],
      b @ [round_sig5 (ct ! i) - round_sig5 (ct ! i - tn ! i)])"
    by (simp add: d1_def)
  have rest: "\<forall>i \<in> set is. i < length (log_time r)" using Cons.prems(1) by simp
  have "read_lines lib d (map (row_text lib r) (i # is)) = read_lines lib d1 (map (row_text lib r) is)"
    by (simp add: step)
  also note Cons.IH [OF rest d1_ref]
  finally show ?case by (simp add: d1_def)
qed

lemma text_rows:
  assumes rng: "rows_in_range r" and lr: "lib_renders lib r t_off t_land"
    and "\<forall>i \<in> set is. i < length (log_time r)"
  shows "\<forall>l \<in> set (map (row_text lib r) is). text_line l"
proof -
  have "text_line (row_text lib r i)" if i: "i < length (log_time r)" for i
  proof -
    from i rng have len: "i < length (log_cnt_1mn r)" "i < length (log_cnt_5sc r)" "i < length (log_lat r)"
        "i < length (log_lon r)" "i < length (log_alt r)"
      by (simp_all add: rows_in_range_def)
    have m: "log_time r ! i \<in> set (t_off # t_land # log_time r)"
        "log_cnt_1mn r ! i \<in> set (log_cnt_1mn r) \<union> set (log_cnt_5sc r)"
        "log_cnt_5sc r ! i \<in> set (log_cnt_1mn r) \<union> set (log_cnt_5sc r)"
        "log_lat r ! i \<in> set (log_lat r) \<union> set (log_lon r)"
        "log_lon r ! i \<in> set (log_lat r) \<union> set (log_lon r)"
        "log_alt r ! i \<in> set (log_alt r)"
      using i len by simp_all
    note p6 = lib_rendersD(1) [OF lr m(1)] lib_rendersD(4) [OF lr m(2)] lib_rendersD(4) [OF lr m(3)]
      lib_rendersD(6) [OF lr m(4)] lib_rendersD(6) [OF lr m(5)] lib_rendersD(8) [OF lr m(6)]
    show ?thesis
    proof (cases "log_reference r")
      case None
      then show ?thesis
        using text_line_row [OF p6] by (simp add: row_text_def)
    next
      case (Some ref)
      obtain ct tn where ref: "ref = (ct, tn)" by (cases ref)
      from i rng Some ref have len2: "i < length ct" "i < length tn"
        by (simp_all add: rows_in_range_def)
      have "map2 (\<lambda>c n. c - n) ct tn ! i = ct ! i - tn ! i" using len2 by simp
      then have "ct ! i - tn ! i \<in> set (map2 (\<lambda>c n. c - n) ct tn)"
        using len2 by (metis length_map length_zip min_less_iff_conj nth_mem)
      then have m2: "ct ! i \<in> set (dose_values r)" "ct ! i - tn ! i \<in> set (dose_values r)"
        using len2 by (simp_all add: dose_values_def Some ref)
      show ?thesis
        using text_line_row8 [OF p6 lib_rendersD(10) [OF lr m2(1)] lib_rendersD(10) [OF lr m2(2)]]
        by (simp add: row_text_def Some ref)
    qed
  qed
  with assms(3) show ?thesis by simp
qed

lemma map_nth_upt:
  "length xs = n \<Longrightarrow> map (\<lambda>i. f (xs ! i)) [0..<n] = map f xs"
  by (auto simp: list_eq_iff_nth_eq)

lemma map2_nth_upt:
  "length xs = n \<Longrightarrow> length ys = n \<Longrightarrow> map (\<lambda>i. g (xs ! i) (ys ! i)) [0..<n] = map2 g xs ys"
  by (auto simp: list_eq_iff_nth_eq)

lemma nth_upt_same:
  "length xs = n \<Longrightarrow> map ((!) xs) [0..<n] = xs"
  by (auto simp: list_eq_iff_nth_eq)

lemma plain_metadataD:
  assumes "plain_metadata r"
  shows "plain (log_device_id r)" "plain (log_flight_number r)" "plain (log_citizen_id r)"
    "plain (log_origin_ICAO r)" "plain (log_destination_ICAO r)" "plain (log_timestamps r)"
    "plain (log_time_offset r)" "plain (log_R2 r)"
  using assms by (simp_all add: plain_metadata_def)

lemma read_head_lines:
  assumes "plain v"
  shows "read_lines lib d
           [''# format = processedCOA-v1'' @ nl, ''# data delimiter = comma'' @ nl, ''#'' @ nl,
            ''# device_id = '' @ v @ nl, ''# detector_model = ???'' @ nl] =
         Inr (d\<lparr>log_device_id := v\<rparr>)"
  by (simp add: read_fixed read_device_id [OF assms] del: append.simps)

lemma text_head_lines:
  assumes "plain v"
  shows "\<forall>l \<in> set [''# format = processedCOA-v1'' @ nl, ''# data delimiter = comma'' @ nl,
            ''#'' @ nl, ''# device_id = '' @ v @ nl, ''# detector_model = ???'' @ nl]. text_line l"
  using assms by (simp add: text_line_fixed text_line_value del: append.simps)

lemma read_pipeline_line:
  "read_lines lib d [''# processing_pipeline = ???'' @ nl] = Inr d"
  by (simp add: read_fixed del: append.simps)

lemma round_half_even_error: "\<bar>of_int (round_half_even x) - x\<bar> \<le> 1 / 2"
proof -
  define f where "f = \<lfloor>x\<rfloor>"
  have lo: "of_int f \<le> x" and hi: "x < of_int f + 1"
    unfolding f_def by linarith+
  show ?thesis
    using lo hi unfolding round_half_even_def Let_def f_def [symmetric]
    by (auto simp: abs_if)
qed

lemma round_dec_error: "\<bar>round_dec k x - x\<bar> \<le> 1 / (2 * 10 ^ k)"
proof -
  have p: "(0 :: rat) < 10 ^ k" by simp
  have scale: "\<bar>of_int n / 10 ^ k - y\<bar> \<le> 1 / (2 * 10 ^ k)"
    if "\<bar>of_int n - y * 10 ^ k\<bar> \<le> 1 / 2" for n :: int and y :: rat
  proof -
    have "of_int n / 10 ^ k - y = (of_int n - y * 10 ^ k) / 10 ^ k"
      using p by (simp add: field_simps)
    then have "\<bar>of_int n / 10 ^ k - y\<bar> = \<bar>of_int n - y * 10 ^ k\<bar> / 10 ^ k"
      using p by (simp add: abs_divide)
    also have "\<dots> \<le> (1 / 2) / 10 ^ k"
      using that p by (intro divide_right_mono) simp_all
    finally show ?thesis by simp
  qed
  show ?thesis
  proof (cases "x < 0")
    case True
    have "\<bar>of_int (round_half_even (- x * 10 ^ k)) / 10 ^ k - (- x)\<bar> \<le> 1 / (2 * 10 ^ k)"
      using round_half_even_error [of "- x * 10 ^ k"] by (intro scale) simp
    then show ?thesis using True by (simp add: round_dec_def abs_if split: if_splits)
  next
    case False
    have "\<bar>of_int (round_half_even (x * 10 ^ k)) / 10 ^ k - x\<bar> \<le> 1 / (2 * 10 ^ k)"
      using round_half_even_error [of "x * 10 ^ k"] by (intro scale) simp
    then show ?thesis using False by (simp add: round_dec_def)
  qed
qed

text \<open>
  Claim C6, as stated: every finalized record, with or without reference data, would be
  read back with its counts, timestamps, positions and metadata, the dose values to four
  significant digits.  The first record has no reference data and the time offset \<^verbatim>\<open>120\<close>,
  which \<^verbatim>\<open>read_raw_log\<close> sets in either case: the file holds \<^verbatim>\<open>???\<close> in its place, and that
  is what is read.  In the second record the reference dose \<open>0.051234\<close> belongs to a total
  of \<open>5.1234\<close>: the file holds the total and the neutron dose \<open>5.0722\<close>, and the difference
  read back is \<open>0.0512\<close>.  A citizen id that holds the key of another line is read as that
  line, and white space around a text is not read back.
\<close>

theorem write_read_counterexample:
  "write_then_read sample_lib sample_plain
     = Inr (sample_plain\<lparr>log_time_offset := ''???'', log_R2 := ''???'',
              log_lat := [- (3397146 / 100000), - (67 / 2)],
              log_lon := [1860208 / 100000, 37 / 2], log_alt := [1234, 10668]\<rparr>)
   \<and> log_time_offset sample_plain = ''120''
   \<and> write_then_read sample_lib sample_reference
     = Inr (sample_reference\<lparr>log_scaling_factor := 12346 / 100000,
              log_lat := [- (3397146 / 100000), - (67 / 2)],
              log_lon := [1860208 / 100000, 37 / 2], log_alt := [1234, 10668],
              log_reference := Some ([51234 / 10000, 3], [512 / 10000, 1])\<rparr>)
   \<and> log_reference sample_reference = Some ([51234 / 10000, 3], [51234 / 1000000, 1])
   \<and> \<not> \<bar>512 / 10000 - 51234 / 1000000 :: rat\<bar> \<le> 5 / 1000000
   \<and> read_line sample_lib empty_data (''# citizen_id = '' @ ''device_id =7'' @ nl)
     = Inr (empty_data\<lparr>log_device_id := ''device_id =7''\<rparr>)
   \<and> read_line sample_lib empty_data (''# flight_number = '' @ '' AF0871'' @ nl)
     = Inr (empty_data\<lparr>log_flight_number := ''AF0871''\<rparr>)"
  by code_simp

text \<open>
  Claim C6, amended.  Take a record whose header texts fit a header line, whose arrays
  have one length, whose airport codes are listed with the cities of the record, whose
  date is the date of its takeoff, and a library that renders the values of the record as
  \<open>lib_renders\<close> says.  Writing the record and reading the file back succeeds and gives
  \<open>reread_record\<close>: the counts, the timestamps and the header texts as they are, the
  latitude and longitude rounded to five decimal places, the altitude rounded to a whole
  number (\<open>round_dec_error\<close> bounds the error), and with reference data the scaling factor
  and the total dose rounded to five significant digits and the dose \<^verbatim>\<open>total-neutron\<close> as
  the difference of the rounded total and the rounded neutron dose.  Without reference data
  the time offset and the fit are read back as \<^verbatim>\<open>???\<close>.
\<close>

theorem write_read_round_trip:
  assumes "log_takeoff r = Some t_off" "log_landing r = Some t_land"
    and "log_date r = Some (date_of lib t_off)"
    and "rows_in_range r" "plain_metadata r"
    and "airports_city lib (log_origin_ICAO r) = Some (log_origin r)"
    and "airports_city lib (log_destination_ICAO r) = Some (log_destination r)"
    and "lib_renders lib r t_off t_land"
  shows "write_then_read lib r = Inr (reread_record r)"
proof -
  note pm = plain_metadataD [OF assms(5)]
  note lr = assms(8)
  define head where "head = [''# format = processedCOA-v1'' @ nl, ''# data delimiter = comma'' @ nl,
      ''#'' @ nl, ''# device_id = '' @ log_device_id r @ nl, ''# detector_model = ???'' @ nl]"
  define dev where "dev = device_lines (py_lower (log_device_id r))"
  define pp where "pp = [''# processing_pipeline = ???'' @ nl]"
  define refl where "refl = reference_lines lib r"
  define fl where "fl = flight_lines lib r t_off t_land"
  define rows where "rows = map (row_text lib r) [0..<length (log_time r)]"
  have idx: "\<forall>i \<in> set [0..<length (log_time r)]. i < length (log_time r)" by simp
  have w: "newlog_writes lib r = Inr (head @ dev @ pp @ refl @ fl @ rows)"
    unfolding newlog_writes_def head_def dev_def pp_def refl_def fl_def rows_def
    by (simp add: assms(1,2) row_lines_ok [OF assms(4) idx] del: append.simps)
  have tm: "t_off \<in> set (t_off # t_land # log_time r)" "t_land \<in> set (t_off # t_land # log_time r)"
    by simp_all
  have sf: "log_scaling_factor r \<in> set (dose_values r)"
    if "log_reference r \<noteq> None \<or> 0 < log_scaling_factor r"
    using that by (auto simp: dose_values_def split: option.splits)
  have t_head: "\<forall>l \<in> set head. text_line l"
    unfolding head_def by (rule text_head_lines [OF pm(1)])
  have t_dev: "\<forall>l \<in> set dev. text_line l"
    unfolding dev_def by (rule text_device_lines)
  have t_pp: "\<forall>l \<in> set pp. text_line l"
    unfolding pp_def by (simp add: text_line_fixed del: append.simps)
  have t_refl: "\<forall>l \<in> set refl. text_line l"
    unfolding refl_def
    by (rule text_reference_lines [OF pm(7) pm(8) fieldD(1) [OF lib_rendersD(10) [OF lr sf]]])
  have t_fl: "\<forall>l \<in> set fl. text_line l"
    unfolding fl_def
    by (rule text_flight_lines [OF pm(4) pm(5) pm(2) pm(6) pm(3)
          fieldD(1) [OF lib_rendersD(1) [OF lr tm(1)]] fieldD(1) [OF lib_rendersD(1) [OF lr tm(2)]]])
  have t_rows: "\<forall>l \<in> set rows. text_line l"
    unfolding rows_def by (rule text_rows [OF assms(4) lr idx])
  have "\<forall>l \<in> set (head @ dev @ pp @ refl @ fl @ rows). text_line l"
    using t_head t_dev t_pp t_refl t_fl t_rows by auto
  from read_back_lines [OF this]
  have wr: "write_then_read lib r = read_lines lib empty_data (head @ dev @ pp @ refl @ fl @ rows)"
    by (simp add: write_then_read_def write_newlog_def w read_processed_log_def)
  have r_head: "read_lines lib d head = Inr (d\<lparr>log_device_id := log_device_id r\<rparr>)" for d
    unfolding head_def by (rule read_head_lines [OF pm(1)])
  have r_dev: "read_lines lib d dev = Inr d" for d
    unfolding dev_def by (rule read_device_lines)
  have r_pp: "read_lines lib d pp = Inr d" for d
    unfolding pp_def by (rule read_pipeline_line)
  have r_fl: "read_lines lib d fl =
      Inr (d\<lparr>log_origin_ICAO := log_origin_ICAO r, log_origin := log_origin r,
             log_destination_ICAO := log_destination_ICAO r, log_destination := log_destination r,
             log_flight_number := log_flight_number r,
             log_takeoff := Some t_off, log_date := Some (date_of lib t_off),
             log_landing := Some t_land, log_timestamps := log_timestamps r,
             log_citizen_id := log_citizen_id r\<rparr>)" for d
    unfolding fl_def
    by (rule read_flight_lines [OF pm(4) assms(6) pm(5) assms(7) pm(2) pm(6) pm(3)
          fieldD(1) [OF lib_rendersD(1) [OF lr tm(1)]] lib_rendersD(3) [OF lr tm(1)]
          fieldD(1) [OF lib_rendersD(1) [OF lr tm(2)]] lib_rendersD(3) [OF lr tm(2)]])
  note len = assms(4) [unfolded rows_in_range_def]
  show ?thesis
  proof (cases "log_reference r")
    case None
    have r_refl: "read_lines lib d refl =
        Inr (d\<lparr>log_time_offset := ''???'',
               log_scaling_factor := (if 0 < log_scaling_factor r then round_sig5 (log_scaling_factor r) else 0),
               log_R2 := ''???''\<rparr>)" for d
      unfolding refl_def
      by (rule read_reference_lines_none [OF None lib_rendersD(12) [OF lr]
            fieldD(1) [OF lib_rendersD(10) [OF lr sf]] lib_rendersD(11) [OF lr sf]]) simp_all
    define d5 where "d5 = empty_data\<lparr>log_device_id := log_device_id r, log_time_offset := ''???'',
        log_scaling_factor := (if 0 < log_scaling_factor r then round_sig5 (log_scaling_factor r) else 0),
        log_R2 := ''???'', log_origin_ICAO := log_origin_ICAO r, log_origin := log_origin r,
        log_destination_ICAO := log_destination_ICAO r, log_destination := log_destination r,
        log_flight_number := log_flight_number r,
        log_takeoff := Some t_off, log_date := Some (date_of lib t_off),
        log_landing := Some t_land, log_timestamps := log_timestamps r,
        log_citizen_id := log_citizen_id r\<rparr>"
    have d5_ref: "log_reference d5 = None" by (simp add: d5_def empty_data_def)
    have "write_then_read lib r = read_lines lib d5 rows"
      unfolding wr d5_def
      by (simp only: read_lines_append r_head r_dev r_pp r_refl r_fl read_lines_from.simps)
    also have "\<dots> = Inr (d5\<lparr>log_time := log_time d5 @ map (\<lambda>i. log_time r ! i) [0..<length (log_time r)],
        log_cnt_1mn := log_cnt_1mn d5 @ map (\<lambda>i. log_cnt_1mn r ! i) [0..<length (log_time r)],
        log_cnt_5sc := log_cnt_5sc d5 @ map (\<lambda>i. log_cnt_5sc r ! i) [0..<length (log_time r)],
        log_lat := log_lat d5 @ map (\<lambda>i. round_dec 5 (log_lat r ! i)) [0..<length (log_time r)],
        log_lon := log_lon d5 @ map (\<lambda>i. round_dec 5 (log_lon r ! i)) [0..<length (log_time r)],
        log_alt := log_alt d5 @ map (\<lambda>i. round_dec 0 (log_alt r ! i)) [0..<length (log_time r)]\<rparr>)"
      unfolding rows_def by (rule read_rows_none [OF None assms(4) lr idx d5_ref])
    also have "\<dots> = Inr (reread_record r)"
      using len None assms(1,2,3)
      by (cases r) (simp add: d5_def empty_data_def reread_record_def map_nth_upt nth_upt_same map_nth)
    finally show ?thesis .
  next
    case (Some ref)
    obtain ct tn where ref: "log_reference r = Some (ct, tn)" using Some by (cases ref) simp
    then have nn: "log_reference r \<noteq> None" by simp
    have sf': "log_reference r \<noteq> None \<or> 0 < log_scaling_factor r" using nn by simp
    have r_refl: "read_lines lib d refl =
        Inr (d\<lparr>log_time_offset := log_time_offset r, log_scaling_factor := round_sig5 (log_scaling_factor r),
               log_R2 := log_R2 r, log_reference := Some ([], [])\<rparr>)" for d
      unfolding refl_def
      by (rule read_reference_lines_some [OF nn pm(7) pm(8)
            fieldD(1) [OF lib_rendersD(10) [OF lr sf [OF sf']]] lib_rendersD(11) [OF lr sf [OF sf']]])
    define d5 where "d5 = empty_data\<lparr>log_device_id := log_device_id r, log_time_offset := log_time_offset r,
        log_scaling_factor := round_sig5 (log_scaling_factor r),
        log_R2 := log_R2 r, log_reference := Some ([], []),
        log_origin_ICAO := log_origin_ICAO r, log_origin := log_origin r,
        log_destination_ICAO := log_destination_ICAO r, log_destination := log_destination r,
        log_flight_number := log_flight_number r,
        log_takeoff := Some t_off, log_date := Some (date_of lib t_off),
        log_landing := Some t_land, log_timestamps := log_timestamps r,
        log_citizen_id := log_citizen_id r\<rparr>"
    have d5_ref: "log_reference d5 = Some ([], [])" by (simp add: d5_def empty_data_def)
    have "write_then_read lib r = read_lines lib d5 rows"
      unfolding wr d5_def
      by (simp only: read_lines_append r_head r_dev r_pp r_refl r_fl read_lines_from.simps)
    also have "\<dots> = Inr (d5\<lparr>log_time := log_time d5 @ map (\<lambda>i. log_time r ! i) [0..<length (log_time r)],
        log_cnt_1mn := log_cnt_1mn d5 @ map (\<lambda>i. log_cnt_1mn r ! i) [0..<length (log_time r)],
        log_cnt_5sc := log_cnt_5sc d5 @ map (\<lambda>i. log_cnt_5sc r ! i) [0..<length (log_time r)],
        log_lat := log_lat d5 @ map (\<lambda>i. round_dec 5 (log_lat r ! i)) [0..<length (log_time r)],
        log_lon := log_lon d5 @ map (\<lambda>i. round_dec 5 (log_lon r ! i)) [0..<length (log_time r)],
        log_alt := log_alt d5 @ map (\<lambda>i. round_dec 0 (log_alt r ! i)) [0..<length (log_time r)],
        log_reference :=
          Some ([] @ map (\<lambda>i. round_sig5 (ct ! i)) [0..<length (log_time r)],
                [] @ map (\<lambda>i. round_sig5 (ct ! i) - round_sig5 (ct ! i - tn ! i))
                       [0..<length (log_time r)])\<rparr>)"
      unfolding rows_def by (rule read_rows_some [OF ref assms(4) lr idx d5_ref])
    also have "\<dots> = Inr (reread_record r)"
      using len ref assms(1,2,3)
        map2_nth_upt [of ct "length (log_time r)" tn "\<lambda>c n. round_sig5 c - round_sig5 (c - n)"]
      by (cases r) (simp add: d5_def empty_data_def reread_record_def map_nth_upt nth_upt_same map_nth)
    finally show ?thesis .
  qed
qed

theorem write_read_round_trip_witness:
  "write_then_read sample_lib sample_reference
     = Inr (sample_reference\<lparr>log_scaling_factor := 12346 / 100000,
              log_lat := [- (3397146 / 100000), - (67 / 2)],
              log_lon := [1860208 / 100000, 37 / 2], log_alt := [1234, 10668],
              log_reference := Some ([51234 / 10000, 3], [512 / 10000, 1])\<rparr>)"
proof -
  have h1: "log_takeoff sample_reference = Some 1706954400" by code_simp
  have h2: "log_landing sample_reference = Some 1706954460" by code_simp
  have h3: "log_date sample_reference = Some (date_of sample_lib 1706954400)" by code_simp
  have h4: "rows_in_range sample_reference" by code_simp
  have h5: "plain_metadata sample_reference" by code_simp
  have h6: "airports_city sample_lib (log_origin_ICAO sample_reference)
              = Some (log_origin sample_reference)" by code_simp
  have h7: "airports_city sample_lib (log_destination_ICAO sample_reference)
              = Some (log_destination sample_reference)" by code_simp
  have h8: "lib_renders sample_lib sample_reference 1706954400 1706954460" by code_simp
  have "reread_record sample_reference
     = sample_reference\<lparr>log_scaling_factor := 12346 / 100000,
              log_lat := [- (3397146 / 100000), - (67 / 2)],
              log_lon := [1860208 / 100000, 37 / 2], log_alt := [1234, 10668],
              log_reference := Some ([51234 / 10000, 3], [512 / 10000, 1])\<rparr>"
    by code_simp
  with write_read_round_trip [OF h1 h2 h3 h4 h5 h6 h7 h8] show ?thesis by simp
qed

end
